theory Spec2Isabelle
  imports Main "HOL-Library.AList"
begin

section \<open>Constants of \<open>server/contracts.ts\<close>\<close>

definition CLANKER_FEE_LOCKER_ADDRESS :: string where
  "CLANKER_FEE_LOCKER_ADDRESS = ''0xf3622742b1e446d92e45e22923ef11c2fcd55d68''"

definition WETH_ADDRESS :: string where
  "WETH_ADDRESS = ''0x4200000000000000000000000000000000000006''"

definition MULTICALL_BATCH_SIZE :: nat where
  "MULTICALL_BATCH_SIZE = 500"

section \<open>JavaScript values used by the server code\<close>

text \<open>
  Values that an \<open>await\<close> can throw. Every asynchronous function below returns
  \<open>js_error + 'a\<close>: \<open>Inl\<close> is a rejected promise, \<open>Inr\<close> a fulfilled one.
\<close>

datatype js_error = TransportError | HttpError | TypeError

text \<open>\<open>String.prototype.toLowerCase\<close> on the ASCII range (addresses are hex strings).\<close>

definition toLowerCase_char :: "char \<Rightarrow> char" where
  "toLowerCase_char c =
     (case map_of (zip ''ABCDEFGHIJKLMNOPQRSTUVWXYZ'' ''abcdefghijklmnopqrstuvwxyz'') c of
        Some l \<Rightarrow> l
      | None \<Rightarrow> c)"

definition toLowerCase :: "string \<Rightarrow> string" where
  "toLowerCase s = map toLowerCase_char s"

text \<open>\<open>Array.prototype.slice(i, j)\<close> for \<open>0 \<le> i \<le> j\<close>; past the end it truncates.\<close>

definition slice :: "'a list \<Rightarrow> nat \<Rightarrow> nat \<Rightarrow> 'a list" where
  "slice xs i j = take (j - i) (drop i xs)"

text \<open>\<open>BigInt.prototype.toString()\<close>: decimal digits, a minus sign for negatives.\<close>

definition digit_char :: "nat \<Rightarrow> char" where
  "digit_char d = ''0123456789'' ! d"

function digits10 :: "nat \<Rightarrow> string" where
  "digits10 n = (if n < 10 then [digit_char n] else digits10 (n div 10) @ [digit_char (n mod 10)])"
  by pat_completeness auto
termination
  by (relation "measure (\<lambda>n. n)") auto

definition bigint_toString :: "int \<Rightarrow> string" where
  "bigint_toString i = (if i < 0 then CHR ''-'' # digits10 (nat (- i)) else digits10 (nat i))"

section \<open>Data model\<close>

record TokenMetadata =
  symbol :: string
  decimals :: int

text \<open>
  \<open>RewardAsset\<close> of the shared schema:
  \<open>{ address, symbol, decimals, amount, formattedAmount }\<close>.
\<close>

record RewardAsset = TokenMetadata +
  address :: string
  amount :: string
  formattedAmount :: string

record TotalClaimable =
  rewards :: "RewardAsset list"
  tokenAddresses :: "string list"

text \<open>A JavaScript \<open>Map<string, bigint>\<close>: the entries in insertion order. \<open>Map.set\<close> is
  \<open>AList.update\<close> (an existing key keeps its place and takes the new value, a new key goes
  to the end), \<open>Map.get\<close> is \<open>map_of\<close>, \<open>Map.forEach\<close> is a fold over the list.\<close>

type_synonym fee_map = "(string \<times> int) list"

section \<open>The read-only transport (\<open>publicClient\<close>)\<close>

text \<open>One entry of the \<open>contracts\<close> array: target address, function name, arguments.\<close>

datatype contract_call = ContractCall string string "string list"

text \<open>One item of a multicall answer (\<open>allowFailure: true\<close>): \<open>result.status\<close> with
  \<open>result.result\<close>.\<close>

datatype mc_item = success int | failure

text \<open>
  The outcome of \<open>publicClient.multicall\<close>: the promise rejects, or it resolves to an
  array with one item per contract, here the function from the position to the item.
\<close>

datatype mc_response = rejected js_error | resolved "nat \<Rightarrow> mc_item"

datatype request = Multicall "contract_call list" | ReadContract string string

text \<open>
  The network as the code sees it: what each request returns, given the requests sent
  before it. Nothing is assumed about the answers.
\<close>

record network =
  multicall :: "request list \<Rightarrow> contract_call list \<Rightarrow> mc_response"
  readSymbol :: "request list \<Rightarrow> string \<Rightarrow> js_error + string"
  readDecimals :: "request list \<Rightarrow> string \<Rightarrow> js_error + int"

text \<open>The module state of \<open>contracts.ts\<close>: the permanent metadata cache, and the requests
  the client has sent so far.\<close>

record contracts_state =
  tokenMetadataCache :: "string \<rightharpoonup> TokenMetadata"
  sent :: "request list"

section \<open>Token metadata resolver\<close>

text \<open>
  \<open>getTokenMetadata\<close>. A cache entry is an object, so \<open>if (cached)\<close> holds exactly when
  the key is present. \<open>Promise.all\<close> issues both \<open>readContract\<close> calls and rejects when
  either does; the \<open>catch\<close> block then returns the fallback. \<open>address.slice(0, 8)\<close> is
  \<open>take 8\<close>.
\<close>

definition getTokenMetadata ::
  "network \<Rightarrow> string \<Rightarrow> contracts_state \<Rightarrow> (js_error + TokenMetadata) \<times> contracts_state" where
  "getTokenMetadata net addr s =
     (case tokenMetadataCache s (toLowerCase addr) of
        Some cached \<Rightarrow> (Inr cached, s)
      | None \<Rightarrow>
          if toLowerCase addr = toLowerCase WETH_ADDRESS then
            let metadata = \<lparr> symbol = ''WETH'', decimals = 18 \<rparr>
            in (Inr metadata,
                s\<lparr> tokenMetadataCache := (tokenMetadataCache s)(toLowerCase addr \<mapsto> metadata) \<rparr>)
          else
            let s' = s\<lparr> sent := sent s @ [ReadContract addr ''symbol'', ReadContract addr ''decimals''] \<rparr>
            in (case (readSymbol net (sent s) addr, readDecimals net (sent s) addr) of
                  (Inr symb, Inr decs) \<Rightarrow>
                    let metadata = \<lparr> symbol = symb, decimals = decs \<rparr>
                    in (Inr metadata,
                        s'\<lparr> tokenMetadataCache := (tokenMetadataCache s')(toLowerCase addr \<mapsto> metadata) \<rparr>)
                | _ \<Rightarrow> (Inr \<lparr> symbol = take 8 addr, decimals = 18 \<rparr>, s')))"

text \<open>The metadata cache holds nothing but the hard-coded value under the key of the
  wrapped-native address. The empty cache satisfies this, and \<open>getTokenMetadata\<close>, the only
  writer of the cache, keeps it.\<close>

definition weth_cache_ok :: "contracts_state \<Rightarrow> bool" where
  "weth_cache_ok s =
     (tokenMetadataCache s (toLowerCase WETH_ADDRESS) = None
      \<or> tokenMetadataCache s (toLowerCase WETH_ADDRESS) = Some \<lparr> symbol = ''WETH'', decimals = 18 \<rparr>)"

section \<open>Batched balance reader\<close>

definition availableFees_contracts :: "string \<Rightarrow> string list \<Rightarrow> contract_call list" where
  "availableFees_contracts feeOwner tokenAddrs =
     map (\<lambda>tokenAddress.
            ContractCall CLANKER_FEE_LOCKER_ADDRESS ''availableFees'' [feeOwner, tokenAddress])
         tokenAddrs"

text \<open>The body of the loop over \<open>multicallResults\<close>, at index \<open>i\<close>.\<close>

definition store_result :: "string list \<Rightarrow> mc_item list \<Rightarrow> nat \<Rightarrow> fee_map \<Rightarrow> fee_map" where
  "store_result tokenAddrs multicallResults i results =
     (case multicallResults ! i of
        success r \<Rightarrow> AList.update (tokenAddrs ! i) r results
      | failure \<Rightarrow> AList.update (tokenAddrs ! i) 0 results)"

text \<open>
  \<open>getFeesForAddressesMulticall\<close>. The only statement of the \<open>try\<close> block that can throw
  is the \<open>await\<close> of the multicall, before anything is stored, so the \<open>catch\<close> block
  starts from the empty map.
\<close>

definition getFeesForAddressesMulticall ::
  "network \<Rightarrow> string \<Rightarrow> string list \<Rightarrow> contracts_state \<Rightarrow> (js_error + fee_map) \<times> contracts_state" where
  "getFeesForAddressesMulticall net feeOwner tokenAddrs s =
     (if length tokenAddrs = 0 then (Inr [], s)
      else
        let contracts = availableFees_contracts feeOwner tokenAddrs;
            s' = s\<lparr> sent := sent s @ [Multicall contracts] \<rparr>
        in (case multicall net (sent s) contracts of
              resolved answer \<Rightarrow>
                let multicallResults = map answer [0..<length contracts]
                in (Inr (fold (store_result tokenAddrs multicallResults)
                              [0..<length multicallResults] []), s')
            | rejected error \<Rightarrow>
                (Inr (fold (\<lambda>addr results. AList.update addr 0 results) tokenAddrs []), s')))"

section \<open>Aggregation service\<close>

text \<open>The callback of \<open>batchResults.forEach\<close>, on the two accumulators.\<close>

fun collect :: "string \<times> int \<Rightarrow> fee_map \<times> string list \<Rightarrow> fee_map \<times> string list" where
  "collect (addr, fees) (feesPerAddress, addressesWithFees) =
     (if fees > 0 then (AList.update addr fees feesPerAddress, addressesWithFees @ [addr])
      else (feesPerAddress, addressesWithFees))"

text \<open>The loop \<open>for (let i = 0; i < allAddresses.length; i += MULTICALL_BATCH_SIZE)\<close>.\<close>

function batch_loop ::
  "network \<Rightarrow> string \<Rightarrow> string list \<Rightarrow> nat \<Rightarrow> fee_map \<times> string list \<Rightarrow> contracts_state
     \<Rightarrow> (js_error + fee_map \<times> string list) \<times> contracts_state" where
  "batch_loop net feeOwner allAddresses i acc s =
     (if i < length allAddresses then
        (case getFeesForAddressesMulticall net feeOwner
                (slice allAddresses i (i + MULTICALL_BATCH_SIZE)) s of
           (Inl e, s') \<Rightarrow> (Inl e, s')
         | (Inr batchResults, s') \<Rightarrow>
             batch_loop net feeOwner allAddresses (i + MULTICALL_BATCH_SIZE)
               (fold collect batchResults acc) s')
      else (Inr acc, s))"
  by pat_completeness auto
termination
  by (relation "measure (\<lambda>(net, feeOwner, allAddresses, i, acc, s). length allAddresses - i)")
     (auto simp: MULTICALL_BATCH_SIZE_def)

text \<open>
  The loop \<open>for (const address of addressesWithFees)\<close>. \<open>feesPerAddress.get(address)!\<close>
  is \<open>undefined\<close> for a missing key, and \<open>amount.toString()\<close> then throws a TypeError.
  \<open>formatTokenAmount\<close> goes through \<open>parseFloat\<close>, \<open>toFixed\<close>, \<open>toExponential\<close> and
  \<open>Intl.NumberFormat\<close>; it is a parameter here.
\<close>

fun build_rewards ::
  "network \<Rightarrow> (int \<Rightarrow> int \<Rightarrow> string) \<Rightarrow> fee_map \<Rightarrow> string list \<Rightarrow> RewardAsset list
     \<Rightarrow> contracts_state \<Rightarrow> (js_error + RewardAsset list) \<times> contracts_state" where
  "build_rewards net formatTokenAmount feesPerAddress [] rs s = (Inr rs, s)"
| "build_rewards net formatTokenAmount feesPerAddress (addr # rest) rs s =
     (case map_of feesPerAddress addr of
        None \<Rightarrow> (Inl TypeError, s)
      | Some amt \<Rightarrow>
          (case getTokenMetadata net addr s of
             (Inl e, s') \<Rightarrow> (Inl e, s')
           | (Inr metadata, s') \<Rightarrow>
               build_rewards net formatTokenAmount feesPerAddress rest
                 (rs @ [\<lparr> symbol = symbol metadata,
                          decimals = decimals metadata,
                          address = addr,
                          amount = bigint_toString amt,
                          formattedAmount = formatTokenAmount amt (decimals metadata) \<rparr>])
                 s'))"

definition getTotalClaimable ::
  "network \<Rightarrow> (int \<Rightarrow> int \<Rightarrow> string) \<Rightarrow> string \<Rightarrow> string list \<Rightarrow> contracts_state
     \<Rightarrow> (js_error + TotalClaimable) \<times> contracts_state" where
  "getTotalClaimable net formatTokenAmount feeOwner tokenAddrs s =
     (let allAddresses = tokenAddrs @ [WETH_ADDRESS]
      in case batch_loop net feeOwner allAddresses 0 ([], []) s of
           (Inl e, s1) \<Rightarrow> (Inl e, s1)
         | (Inr (feesPerAddress, addressesWithFees), s1) \<Rightarrow>
             (case build_rewards net formatTokenAmount feesPerAddress addressesWithFees [] s1 of
                (Inl e, s2) \<Rightarrow> (Inl e, s2)
              | (Inr rs, s2) \<Rightarrow>
                  (Inr \<lparr> rewards = rs, tokenAddresses = addressesWithFees \<rparr>, s2)))"

text \<open>
  The batches the loop cuts \<open>allAddresses\<close> into, from index \<open>i\<close> on, and the
  \<open>batchResults\<close> maps it receives for them, in order. Both follow the loop's own
  recursion; \<open>batch_loop_chunks\<close> below ties them to \<open>batch_loop\<close>.
\<close>

function batches :: "'a list \<Rightarrow> nat \<Rightarrow> 'a list list" where
  "batches allAddresses i =
     (if i < length allAddresses then
        slice allAddresses i (i + MULTICALL_BATCH_SIZE)
          # batches allAddresses (i + MULTICALL_BATCH_SIZE)
      else [])"
  by pat_completeness auto
termination
  by (relation "measure (\<lambda>(allAddresses, i). length allAddresses - i)")
     (auto simp: MULTICALL_BATCH_SIZE_def)

function chunk_results ::
  "network \<Rightarrow> string \<Rightarrow> string list \<Rightarrow> nat \<Rightarrow> contracts_state \<Rightarrow> fee_map list" where
  "chunk_results net feeOwner allAddresses i s =
     (if i < length allAddresses then
        (case getFeesForAddressesMulticall net feeOwner
                (slice allAddresses i (i + MULTICALL_BATCH_SIZE)) s of
           (Inl e, s') \<Rightarrow> []
         | (Inr batchResults, s') \<Rightarrow>
             batchResults # chunk_results net feeOwner allAddresses (i + MULTICALL_BATCH_SIZE) s')
      else [])"
  by pat_completeness auto
termination
  by (relation "measure (\<lambda>(net, feeOwner, allAddresses, i, s). length allAddresses - i)")
     (auto simp: MULTICALL_BATCH_SIZE_def)

text \<open>The invariant of the two accumulators of the batch loop.\<close>

definition fees_ok :: "fee_map \<times> string list \<Rightarrow> bool" where
  "fees_ok acc = (case acc of (feesPerAddress, addressesWithFees) \<Rightarrow>
      (\<forall>k v. map_of feesPerAddress k = Some v \<longrightarrow> 0 < v)
    \<and> (\<forall>a \<in> set addressesWithFees. map_of feesPerAddress a \<noteq> None))"

text \<open>How many of the per-chunk maps have the address \<open>a\<close> as a key.\<close>

definition assignments :: "string \<Rightarrow> fee_map list \<Rightarrow> nat" where
  "assignments a maps = length (filter (\<lambda>m. a \<in> fst ` set m) maps)"

text \<open>The contract calls that the multicall requests of a request log carry, in order.\<close>

fun request_contracts :: "request \<Rightarrow> contract_call list" where
  "request_contracts (Multicall contracts) = contracts"
| "request_contracts (ReadContract addr fn) = []"

definition multicall_contracts :: "request list \<Rightarrow> contract_call list" where
  "multicall_contracts requests = concat (map request_contracts requests)"

section \<open>Result cache and routes (\<open>server/routes.ts\<close>)\<close>

typedecl Token

record TokensResponse =
  tokens :: "Token list"
  totalClaimable :: TotalClaimable

definition CACHE_TTL :: int where
  "CACHE_TTL = 60000"

text \<open>
  The module state of \<open>routes.ts\<close>: \<open>tokenCache\<close>, whose entries \<open>{ data, timestamp }\<close>
  are pairs here, and the wallet addresses \<open>fetchTokensByCreator\<close> has been called with.
\<close>

record routes_state =
  tokenCache :: "string \<rightharpoonup> TokensResponse \<times> int"
  discoveryCalls :: "string list"

definition empty_response :: TokensResponse where
  "empty_response = \<lparr> tokens = [], totalClaimable = \<lparr> rewards = [], tokenAddresses = [] \<rparr> \<rparr>"

text \<open>
  \<open>GET /api/tokens\<close>. \<open>wallet_q\<close> and \<open>refresh_q\<close> are \<open>req.query.wallet\<close> and
  \<open>req.query.refresh\<close> (\<open>None\<close> when absent); \<open>now_read\<close> and \<open>now_write\<close> are what
  \<open>Date.now()\<close> returns at the cache check and at the cache write;
  \<open>fetchTokensByCreator\<close> (of \<open>clanker.ts\<close>) is given by its outcome, which may depend
  on the earlier calls. The result is the body passed to \<open>res.json\<close>.
\<close>

definition get_api_tokens ::
  "(string list \<Rightarrow> string \<Rightarrow> js_error + TokensResponse) \<Rightarrow> int \<Rightarrow> int
     \<Rightarrow> string option \<Rightarrow> string option \<Rightarrow> routes_state \<Rightarrow> TokensResponse \<times> routes_state" where
  "get_api_tokens fetchTokensByCreator now_read now_write wallet_q refresh_q st =
     (let forceRefresh = (refresh_q = Some ''true'')
      in case wallet_q of
           None \<Rightarrow> (empty_response, st)
         | Some walletAddress \<Rightarrow>
             if walletAddress = [] then (empty_response, st)
             else
               (case (if forceRefresh then None
                      else (case tokenCache st (toLowerCase walletAddress) of
                              None \<Rightarrow> None
                            | Some (cached_data, cached_timestamp) \<Rightarrow>
                                if now_read - cached_timestamp < CACHE_TTL
                                then Some cached_data else None)) of
                  Some cached_data \<Rightarrow> (cached_data, st)
                | None \<Rightarrow>
                    let st1 = (if forceRefresh
                               then st\<lparr> tokenCache := (tokenCache st)(toLowerCase walletAddress := None) \<rparr>
                               else st);
                        st2 = st1\<lparr> discoveryCalls := discoveryCalls st1 @ [walletAddress] \<rparr>
                    in (case fetchTokensByCreator (discoveryCalls st1) walletAddress of
                          Inr d \<Rightarrow>
                            (d, st2\<lparr> tokenCache :=
                                       (tokenCache st2)(toLowerCase walletAddress \<mapsto> (d, now_write)) \<rparr>)
                        | Inl e \<Rightarrow> (empty_response, st2))))"

text \<open>\<open>POST /api/cache/invalidate\<close>; the response is always \<open>{ success: true }\<close>.\<close>

definition post_cache_invalidate :: "string option \<Rightarrow> routes_state \<Rightarrow> bool \<times> routes_state" where
  "post_cache_invalidate walletAddress_b st =
     (case walletAddress_b of
        None \<Rightarrow> (True, st)
      | Some walletAddress \<Rightarrow>
          if walletAddress = [] then (True, st)
          else (True, st\<lparr> tokenCache := (tokenCache st)(toLowerCase walletAddress := None) \<rparr>))"

section \<open>Refresh and poll controller (client home page)\<close>

text \<open>The \<open>options\<close> argument; an absent field is \<open>None\<close> and takes its default.
  \<open>maxRetries\<close> and \<open>intervalMs\<close> are integers.\<close>

record RefreshOptions =
  forceRefresh :: "bool option"
  pollForZero :: "bool option"
  maxRetries :: "int option"
  intervalMs :: "int option"

text \<open>Effects of a refresh, in order: a \<open>fetch\<close> of \<open>/api/tokens\<close> for a wallet (with or
  without \<open>&refresh=true\<close>), and a \<open>setTimeout\<close> wait of some milliseconds.\<close>

datatype effect = Fetch string bool | Wait int

text \<open>What one \<open>fetch\<close> gives: the promise rejects (or the body is not JSON), or there is a
  response with its \<open>ok\<close> flag and its body.\<close>

datatype fetch_outcome = fetch_rejected | response bool TokensResponse

record home_state =
  refreshLock :: bool
  isRefreshing :: bool
  queryData :: "TokensResponse option"
  effects :: "effect list"

text \<open>
  The \<open>for\<close> loop inside the \<open>try\<close> block; \<open>server k\<close> is the outcome of the fetch made
  at attempt \<open>k\<close>. \<open>Inl\<close> is a throw that leaves the loop for the \<open>catch\<close> block.
\<close>

function poll_loop ::
  "(int \<Rightarrow> fetch_outcome) \<Rightarrow> string \<Rightarrow> bool \<Rightarrow> bool \<Rightarrow> int \<Rightarrow> int \<Rightarrow> int
     \<Rightarrow> TokensResponse option \<Rightarrow> home_state \<Rightarrow> (js_error + TokensResponse option) \<times> home_state" where
  "poll_loop server walletAddress force poll interval attempts attempt lastResult s =
     (if attempt \<le> attempts then
        let s1 = s\<lparr> effects := effects s @ [Fetch walletAddress force] \<rparr>
        in (case server attempt of
              fetch_rejected \<Rightarrow> (Inl TransportError, s1)
            | response ok d \<Rightarrow>
                if \<not> ok then (Inl HttpError, s1)
                else
                  let s2 = s1\<lparr> queryData := Some d \<rparr>
                  in if poll then
                       if length (rewards (totalClaimable d)) = 0 then (Inr (Some d), s2)
                       else if attempt < attempts then
                         poll_loop server walletAddress force poll interval attempts (attempt + 1)
                           (Some d) (s2\<lparr> effects := effects s2 @ [Wait interval] \<rparr>)
                       else
                         poll_loop server walletAddress force poll interval attempts (attempt + 1)
                           (Some d) s2
                     else (Inr (Some d), s2))
      else (Inr lastResult, s))"
  by pat_completeness auto
termination
  by (relation "measure (\<lambda>(server, walletAddress, force, poll, interval, attempts, attempt,
                            lastResult, s). nat (attempts + 1 - attempt))")
     auto

text \<open>
  \<open>refreshClaimableRewards\<close>. \<open>wallet_address\<close> is \<open>wallet?.address\<close> (\<open>None\<close> when there
  is no wallet). The \<open>catch\<close> block turns a throw into \<open>null\<close>, the \<open>finally\<close> block
  runs after both. A call is taken from the state it finds to the state it leaves; a call
  made while another one awaits finds \<open>refreshLock\<close> set.
\<close>

definition refreshClaimableRewards ::
  "(int \<Rightarrow> fetch_outcome) \<Rightarrow> string option \<Rightarrow> RefreshOptions \<Rightarrow> home_state
     \<Rightarrow> TokensResponse option \<times> home_state" where
  "refreshClaimableRewards server wallet_address options s =
     (let force = (case forceRefresh options of None \<Rightarrow> False | Some b \<Rightarrow> b);
          poll = (case pollForZero options of None \<Rightarrow> False | Some b \<Rightarrow> b);
          retries = (case maxRetries options of None \<Rightarrow> 6 | Some n \<Rightarrow> n);
          interval = (case intervalMs options of None \<Rightarrow> 2500 | Some n \<Rightarrow> n)
      in case wallet_address of
           None \<Rightarrow> (None, s)
         | Some walletAddress \<Rightarrow>
             if walletAddress = [] then (None, s)
             else if refreshLock s then (None, s)
             else
               let s0 = s\<lparr> refreshLock := True, isRefreshing := True, queryData := None \<rparr>;
                   attempts = (if poll then retries else 1)
               in (case poll_loop server walletAddress force poll interval attempts 1 None s0 of
                     (Inr result, s1) \<Rightarrow>
                       (result, s1\<lparr> refreshLock := False, isRefreshing := False \<rparr>)
                   | (Inl error, s1) \<Rightarrow>
                       (None, s1\<lparr> refreshLock := False, isRefreshing := False \<rparr>)))"

text \<open>
  The effects of a polling run with \<open>k\<close> waits: \<open>k + 1\<close> fetches, with one wait of
  \<open>interval\<close> milliseconds between two consecutive fetches.
\<close>

definition poll_trace :: "string \<Rightarrow> bool \<Rightarrow> int \<Rightarrow> nat \<Rightarrow> effect list" where
  "poll_trace walletAddress force interval k =
     concat (replicate k [Fetch walletAddress force, Wait interval]) @ [Fetch walletAddress force]"

text \<open>The number of fetches in a list of effects, and the durations of its waits.\<close>

fun fetch_count :: "effect list \<Rightarrow> nat" where
  "fetch_count [] = 0"
| "fetch_count (Fetch w force # es) = Suc (fetch_count es)"
| "fetch_count (Wait ms # es) = fetch_count es"

fun wait_times :: "effect list \<Rightarrow> int list" where
  "wait_times [] = []"
| "wait_times (Fetch w force # es) = wait_times es"
| "wait_times (Wait ms # es) = ms # wait_times es"

section \<open>Claim-call builders\<close>

text \<open>
  The object both builders return: \<open>{ to, data, functionName, args }\<close>, with
  \<open>args\<close> the pair \<open>[feeOwner, tokenAddress]\<close>.
\<close>

record ClaimCall =
  to :: string
  data :: string
  functionName :: string
  args :: "string \<times> string"

definition getClaimCalldata :: "string \<Rightarrow> string \<Rightarrow> ClaimCall" where
  "getClaimCalldata feeOwner tokenAddress =
     \<lparr> to = CLANKER_FEE_LOCKER_ADDRESS,
       data = '''',
       functionName = ''claim'',
       args = (feeOwner, tokenAddress) \<rparr>"

definition getClaimWethCalldata :: "string \<Rightarrow> ClaimCall" where
  "getClaimWethCalldata feeOwner =
     \<lparr> to = CLANKER_FEE_LOCKER_ADDRESS,
       data = '''',
       functionName = ''claim'',
       args = (feeOwner, WETH_ADDRESS) \<rparr>"

text \<open>
  The type of \<open>to\<close> and \<open>data\<close> that \<open>sendTransaction\<close> of the wallet hook takes is the
  template literal type of the strings that start with \<open>0x\<close>.
\<close>

definition hex_prefixed :: "string \<Rightarrow> bool" where
  "hex_prefixed d = (take 2 d = ''0x'')"

section \<open>Concrete inputs\<close>

text \<open>A network on which every request fails at transport level.\<close>

definition net_down :: network where
  "net_down = \<lparr> multicall = (\<lambda>before contracts. rejected TransportError),
                readSymbol = (\<lambda>before addr. Inl TransportError),
                readDecimals = (\<lambda>before addr. Inl TransportError) \<rparr>"

text \<open>A network whose multicalls succeed with 5 for the first contract and fail for every
  other item, and on which \<open>decimals()\<close> fails.\<close>

definition net_partial :: network where
  "net_partial =
     \<lparr> multicall = (\<lambda>before contracts. resolved (\<lambda>i. if i = 0 then success 5 else failure)),
       readSymbol = (\<lambda>before addr. Inr ''AAA''),
       readDecimals = (\<lambda>before addr. Inl TransportError) \<rparr>"

text \<open>The state of \<open>contracts.ts\<close> at start-up.\<close>

definition fresh_state :: contracts_state where
  "fresh_state = \<lparr> tokenMetadataCache = Map.empty, sent = [] \<rparr>"

text \<open>A network on which \<open>symbol()\<close> fails for the first request and succeeds later.\<close>

definition net_flaky :: network where
  "net_flaky =
     \<lparr> multicall = (\<lambda>before contracts. rejected TransportError),
       readSymbol = (\<lambda>before addr. if before = [] then Inl TransportError else Inr ''AAA''),
       readDecimals = (\<lambda>before addr. Inr 6) \<rparr>"

text \<open>The home page with no refresh running, and with one in flight.\<close>

definition idle :: home_state where
  "idle = \<lparr> refreshLock = False, isRefreshing = False, queryData = None, effects = [] \<rparr>"


text \<open>A response with one claimable reward, and servers that answer with it: until the third
  attempt, always, and one that cannot be reached.\<close>

definition one_reward :: TokensResponse where
  "one_reward =
     \<lparr> tokens = [],
       totalClaimable =
         \<lparr> rewards = [\<lparr> symbol = ''WETH'', decimals = 18,
                         address = ''0x4200000000000000000000000000000000000006'',
                         amount = ''5'', formattedAmount = ''5.0000e-18'' \<rparr>],
           tokenAddresses = [''0x4200000000000000000000000000000000000006''] \<rparr> \<rparr>"

definition zero_on_third :: "int \<Rightarrow> fetch_outcome" where
  "zero_on_third k = (if k < 3 then response True one_reward else response True empty_response)"

definition never_zero :: "int \<Rightarrow> fetch_outcome" where
  "never_zero k = response True one_reward"


definition poll_options :: "int \<Rightarrow> RefreshOptions" where
  "poll_options n = \<lparr> forceRefresh = Some True, pollForZero = Some True, maxRetries = Some n,
                       intervalMs = None \<rparr>"


definition poll_defaults :: RefreshOptions where
  "poll_defaults = \<lparr> forceRefresh = None, pollForZero = Some True, maxRetries = None,
                     intervalMs = None \<rparr>"

text \<open>The state of \<open>routes.ts\<close> at start-up and after one response was stored at time 1001,
  and a discovery that always succeeds.\<close>

definition fresh_routes :: routes_state where
  "fresh_routes = \<lparr> tokenCache = Map.empty, discoveryCalls = [] \<rparr>"

definition discovery_one :: "string list \<Rightarrow> string \<Rightarrow> js_error + TokensResponse" where
  "discovery_one before walletAddress = Inr one_reward"

definition cached_routes :: routes_state where
  "cached_routes = \<lparr> tokenCache = [''0xabc'' \<mapsto> (one_reward, 1001)], discoveryCalls = [''0xABC''] \<rparr>"

section \<open>Theorems\<close>

text \<open>
  C10. For every owner address, \<open>getClaimWethCalldata owner\<close> is the same value as
  \<open>getClaimCalldata owner WETH_ADDRESS\<close>: the WETH builder is the generic builder
  at the wrapped-native token address.
\<close>

theorem getClaimWethCalldata_is_getClaimCalldata_at_WETH:
  "getClaimWethCalldata feeOwner = getClaimCalldata feeOwner WETH_ADDRESS"
  by (simp add: getClaimWethCalldata_def getClaimCalldata_def)

section \<open>Lemmas: the batched balance reader\<close>

declare digits10.simps [simp del] batches.simps [simp del] chunk_results.simps [simp del]
  batch_loop.simps [simp del]

lemma store_result_map:
  "n < k \<Longrightarrow> store_result addrs (map answer [0..<k]) n m =
     AList.update (addrs ! n) (case answer n of success r \<Rightarrow> r | failure \<Rightarrow> 0) m"
  by (simp add: store_result_def split: mc_item.split)

lemma stored_keys:
  "n \<le> length addrs \<Longrightarrow>
   fst ` set (fold (store_result addrs (map answer [0..<length addrs])) [0..<n] []) = set (take n addrs)"
proof (induction n)
  case 0
  then show ?case by simp
next
  case (Suc n)
  then have "n < length addrs" by simp
  with Suc show ?case
    by (simp add: store_result_map dom_update take_Suc_conv_app_nth)
qed

lemma stored_distinct:
  "distinct (map fst (fold (store_result addrs (map answer [0..<k])) [0..<n] []))"
proof (induction n)
  case 0
  then show ?case by simp
next
  case (Suc n)
  then show ?case
    by (simp add: store_result_def distinct_update split: mc_item.split)
qed


lemma zero_fill_keys:
  "fst ` set (fold (\<lambda>addr results. AList.update addr (0::int) results) addrs m) = fst ` set m \<union> set addrs"
  by (induction addrs arbitrary: m) (auto simp: dom_update)

lemma zero_fill_distinct:
  "distinct (map fst m) \<Longrightarrow> distinct (map fst (fold (\<lambda>addr results. AList.update addr (0::int) results) addrs m))"
  by (induction addrs arbitrary: m) (auto simp: distinct_update)


lemma concat_batches: "concat (batches xs i) = drop i xs"
proof (induction xs i rule: batches.induct)
  case (1 xs i)
  show ?case
  proof (cases "i < length xs")
    case True
    have "slice xs i (i + MULTICALL_BATCH_SIZE) @ drop (i + MULTICALL_BATCH_SIZE) xs = drop i xs"
      by (simp add: slice_def add.commute[of i] flip: drop_drop)
    with True 1 show ?thesis by (subst batches.simps) simp
  next
    case False
    then show ?thesis by (subst batches.simps) simp
  qed
qed

lemma batches_length: "c \<in> set (batches xs i) \<Longrightarrow> 0 < length c \<and> length c \<le> MULTICALL_BATCH_SIZE"
proof (induction xs i rule: batches.induct)
  case (1 xs i)
  show ?case
  proof (cases "i < length xs")
    case True
    with 1 show ?thesis
      by (subst (asm) (2) batches.simps) (auto simp: slice_def MULTICALL_BATCH_SIZE_def)
  next
    case False
    with 1 show ?thesis by (subst (asm) (2) batches.simps) simp
  qed
qed

lemma getFees_nonempty:
  "addrs \<noteq> [] \<Longrightarrow>
   \<exists>m. getFeesForAddressesMulticall net feeOwner addrs s =
         (Inr m, s\<lparr> sent := sent s @ [Multicall (availableFees_contracts feeOwner addrs)] \<rparr>)
       \<and> fst ` set m = set addrs \<and> distinct (map fst m)"
  by (auto simp: getFeesForAddressesMulticall_def Let_def availableFees_contracts_def
        stored_keys stored_distinct zero_fill_keys zero_fill_distinct split: mc_response.split)

lemma slice_nonempty: "i < length xs \<Longrightarrow> slice xs i (i + MULTICALL_BATCH_SIZE) \<noteq> []"
  by (simp add: slice_def MULTICALL_BATCH_SIZE_def)

lemma batch_loop_chunks:
  "batch_loop net feeOwner xs i acc s =
     (Inr (fold collect (concat (chunk_results net feeOwner xs i s)) acc),
      s\<lparr> sent := sent s @ map (\<lambda>c. Multicall (availableFees_contracts feeOwner c)) (batches xs i) \<rparr>)"
proof (induction net feeOwner xs i acc s rule: batch_loop.induct)
  case (1 net feeOwner xs i acc s)
  show ?case
  proof (cases "i < length xs")
    case False
    then show ?thesis
      by (simp add: batch_loop.simps[of net feeOwner xs i] chunk_results.simps[of net feeOwner xs i]
            batches.simps[of xs i])
  next
    case True
    let ?c = "slice xs i (i + MULTICALL_BATCH_SIZE)"
    from True have "?c \<noteq> []" by (rule slice_nonempty)
    then obtain m where m:
      "getFeesForAddressesMulticall net feeOwner ?c s =
         (Inr m, s\<lparr> sent := sent s @ [Multicall (availableFees_contracts feeOwner ?c)] \<rparr>)"
      using getFees_nonempty by blast
    have step: "batch_loop net feeOwner xs (i + MULTICALL_BATCH_SIZE) (fold collect m acc)
             (s\<lparr> sent := sent s @ [Multicall (availableFees_contracts feeOwner ?c)] \<rparr>) =
          (Inr (fold collect (concat (chunk_results net feeOwner xs (i + MULTICALL_BATCH_SIZE)
                   (s\<lparr> sent := sent s @ [Multicall (availableFees_contracts feeOwner ?c)] \<rparr>)))
                 (fold collect m acc)),
           s\<lparr> sent := sent s @ [Multicall (availableFees_contracts feeOwner ?c)] \<rparr>
            \<lparr> sent := sent (s\<lparr> sent := sent s @ [Multicall (availableFees_contracts feeOwner ?c)] \<rparr>)
                 @ map (\<lambda>c. Multicall (availableFees_contracts feeOwner c))
                     (batches xs (i + MULTICALL_BATCH_SIZE)) \<rparr>)"
      using "1.IH"[OF True m[symmetric] refl] .
    show ?thesis
      using True m step
      by (simp add: batch_loop.simps[of net feeOwner xs i] chunk_results.simps[of net feeOwner xs i]
            batches.simps[of xs i])
  qed
qed

lemma chunk_results_keys:
  "map (\<lambda>m. fst ` set m) (chunk_results net feeOwner xs i s) = map set (batches xs i)
   \<and> (\<forall>m \<in> set (chunk_results net feeOwner xs i s). distinct (map fst m))"
proof (induction net feeOwner xs i s rule: chunk_results.induct)
  case (1 net feeOwner xs i s)
  show ?case
  proof (cases "i < length xs")
    case False
    then show ?thesis
      by (simp add: chunk_results.simps[of net feeOwner xs i] batches.simps[of xs i])
  next
    case True
    let ?c = "slice xs i (i + MULTICALL_BATCH_SIZE)"
    from True have "?c \<noteq> []" by (rule slice_nonempty)
    then obtain m where m:
      "getFeesForAddressesMulticall net feeOwner ?c s =
         (Inr m, s\<lparr> sent := sent s @ [Multicall (availableFees_contracts feeOwner ?c)] \<rparr>)"
      and k: "fst ` set m = set ?c" "distinct (map fst m)"
      using getFees_nonempty by blast
    note IH = "1.IH"[OF True m[symmetric] refl]
    show ?thesis
      using True m k IH
      by (simp add: chunk_results.simps[of net feeOwner xs i] batches.simps[of xs i])
  qed
qed

lemma disjoint_count:
  "\<forall>i j. i < j \<and> j < length cs \<longrightarrow> set (cs ! i) \<inter> set (cs ! j) = {} \<Longrightarrow>
   a \<in> set (concat cs) \<Longrightarrow> length (filter (\<lambda>c. a \<in> set c) cs) = 1"
proof (induction cs)
  case Nil
  then show ?case by simp
next
  case (Cons c cs)
  have tl: "\<forall>i j. i < j \<and> j < length cs \<longrightarrow> set (cs ! i) \<inter> set (cs ! j) = {}"
  proof (intro allI impI)
    fix i j assume "i < j \<and> j < length cs"
    then have "Suc i < Suc j \<and> Suc j < length (c # cs)" by simp
    with Cons.prems(1) have "set ((c # cs) ! Suc i) \<inter> set ((c # cs) ! Suc j) = {}" by blast
    then show "set (cs ! i) \<inter> set (cs ! j) = {}" by simp
  qed
  show ?case
  proof (cases "a \<in> set c")
    case True
    have "\<forall>c' \<in> set cs. a \<notin> set c'"
    proof
      fix c' assume "c' \<in> set cs"
      then obtain j where j: "j < length cs" "cs ! j = c'" by (auto simp: in_set_conv_nth)
      then have "0 < Suc j \<and> Suc j < length (c # cs)" by simp
      with Cons.prems(1) have "set ((c # cs) ! 0) \<inter> set ((c # cs) ! Suc j) = {}" by blast
      with j True show "a \<notin> set c'" by auto
    qed
    then have "filter (\<lambda>c. a \<in> set c) cs = []" by (simp add: filter_empty_conv)
    with True show ?thesis by simp
  next
    case False
    with Cons.prems(2) have "a \<in> set (concat cs)" by simp
    with Cons.IH tl False show ?thesis by simp
  qed
qed

lemma count_maps:
  "assignments a (chunk_results net feeOwner xs i s) = length (filter (\<lambda>c. a \<in> set c) (batches xs i))"
proof -
  have "assignments a (chunk_results net feeOwner xs i s)
      = length (filter (\<lambda>S. a \<in> S) (map (\<lambda>m. fst ` set m) (chunk_results net feeOwner xs i s)))"
    by (simp add: assignments_def filter_map comp_def)
  also have "\<dots> = length (filter (\<lambda>S. a \<in> S) (map set (batches xs i)))"
    using chunk_results_keys[of net feeOwner xs i s] by simp
  also have "\<dots> = length (filter (\<lambda>c. a \<in> set c) (batches xs i))"
    by (simp add: filter_map comp_def)
  finally show ?thesis .
qed

lemma batches_overlap_example:
  "batches (replicate 499 ''0xaa'' @ [WETH_ADDRESS, WETH_ADDRESS]) 0
     = [replicate 499 ''0xaa'' @ [WETH_ADDRESS], [WETH_ADDRESS]]"
  by (simp add: batches.simps[of _ 0] batches.simps[of _ 500] batches.simps[of _ 1000]
        slice_def MULTICALL_BATCH_SIZE_def)

lemma batches_two_example:
  "batches (replicate 500 ''0xaa'' @ [WETH_ADDRESS]) 0 = [replicate 500 ''0xaa'', [WETH_ADDRESS]]"
  by (simp add: batches.simps[of _ 0] batches.simps[of _ 500] batches.simps[of _ 1000]
        slice_def MULTICALL_BATCH_SIZE_def)

text \<open>
  C7. For every candidate list, the loop of the aggregation cuts the list with
  the wrapped-native address appended into consecutive chunks of at least 1 and at most
  500 addresses whose concatenation is that list, sends one multicall per chunk, and
  folds the per-chunk maps in order; each per-chunk map has exactly the addresses of its
  chunk as keys, each key once. When no address occurs in two different chunks, every
  input address is a key of exactly one per-chunk map.
\<close>

theorem chunks_cover:
  "let allAddresses = tokenAddrs @ [WETH_ADDRESS];
       chunks = batches allAddresses 0;
       maps = chunk_results net feeOwner allAddresses 0 s
   in concat chunks = allAddresses
    \<and> (\<forall>c \<in> set chunks. 0 < length c \<and> length c \<le> 500)
    \<and> batch_loop net feeOwner allAddresses 0 acc s =
        (Inr (fold collect (concat maps) acc),
         s\<lparr> sent := sent s @ map (\<lambda>c. Multicall (availableFees_contracts feeOwner c)) chunks \<rparr>)
    \<and> map (\<lambda>m. fst ` set m) maps = map set chunks
    \<and> (\<forall>m \<in> set maps. distinct (map fst m))
    \<and> ((\<forall>i j. i < j \<and> j < length chunks \<longrightarrow> set (chunks ! i) \<inter> set (chunks ! j) = {})
         \<longrightarrow> (\<forall>a \<in> set allAddresses. assignments a maps = 1))"
proof -
  let ?xs = "tokenAddrs @ [WETH_ADDRESS]"
  have 1: "concat (batches ?xs 0) = ?xs" by (simp add: concat_batches)
  have 2: "\<forall>c \<in> set (batches ?xs 0). 0 < length c \<and> length c \<le> 500"
    using batches_length[of _ ?xs 0] by (simp add: MULTICALL_BATCH_SIZE_def)
  have 5: "(\<forall>i j. i < j \<and> j < length (batches ?xs 0) \<longrightarrow>
              set (batches ?xs 0 ! i) \<inter> set (batches ?xs 0 ! j) = {})
         \<longrightarrow> (\<forall>a \<in> set ?xs. assignments a (chunk_results net feeOwner ?xs 0 s) = 1)"
  proof (intro impI ballI)
    fix a
    assume d: "\<forall>i j. i < j \<and> j < length (batches ?xs 0) \<longrightarrow>
              set (batches ?xs 0 ! i) \<inter> set (batches ?xs 0 ! j) = {}"
      and a: "a \<in> set ?xs"
    from a 1 have "a \<in> set (concat (batches ?xs 0))" by simp
    from disjoint_count[OF d this]
    show "assignments a (chunk_results net feeOwner ?xs 0 s) = 1"
      by (simp add: count_maps)
  qed
  show ?thesis
    unfolding Let_def
    using 1 2 5 batch_loop_chunks[of net feeOwner ?xs 0 acc s]
      chunk_results_keys[of net feeOwner ?xs 0 s]
    by blast
qed

theorem chunks_cover_witness:
  "concat (batches (replicate 500 ''0xaa'' @ [WETH_ADDRESS]) 0) = replicate 500 ''0xaa'' @ [WETH_ADDRESS]
   \<and> length (batches (replicate 500 ''0xaa'' @ [WETH_ADDRESS]) 0) = 2
   \<and> assignments ''0xaa''
        (chunk_results net_down ''0xfeeowner'' (replicate 500 ''0xaa'' @ [WETH_ADDRESS]) 0 fresh_state) = 1
   \<and> assignments WETH_ADDRESS
        (chunk_results net_down ''0xfeeowner'' (replicate 500 ''0xaa'' @ [WETH_ADDRESS]) 0 fresh_state) = 1"
proof -
  have d: "\<forall>i j. i < j \<and> j < length (batches (replicate 500 ''0xaa'' @ [WETH_ADDRESS]) 0) \<longrightarrow>
        set (batches (replicate 500 ''0xaa'' @ [WETH_ADDRESS]) 0 ! i)
          \<inter> set (batches (replicate 500 ''0xaa'' @ [WETH_ADDRESS]) 0 ! j) = {}"
    unfolding batches_two_example
    by (auto simp: WETH_ADDRESS_def nth_Cons' split: if_splits)
  show ?thesis
    using d chunks_cover[of "replicate 500 ''0xaa''" net_down "''0xfeeowner''" fresh_state "([], [])"]
    unfolding Let_def
    by (simp add: batches_two_example)
qed

text \<open>
  Without the condition on the chunks the last part fails. The candidate list below
  already holds the wrapped-native address at position 499; with the address appended
  again there are 501 entries, and the maps of both chunks have it as a key.
\<close>

theorem chunk_overlap_counterexample:
  "assignments WETH_ADDRESS
      (chunk_results net_down ''0xfeeowner''
         ((replicate 499 ''0xaa'' @ [WETH_ADDRESS]) @ [WETH_ADDRESS]) 0 fresh_state) = 2"
  by (simp add: count_maps batches_overlap_example)



section \<open>Lemmas: the aggregation\<close>

lemma multicall_contracts_append [simp]:
  "multicall_contracts (xs @ ys) = multicall_contracts xs @ multicall_contracts ys"
  by (simp add: multicall_contracts_def)

lemma multicall_contracts_simps [simp]:
  "multicall_contracts [] = []"
  "multicall_contracts (Multicall cs # rs) = cs @ multicall_contracts rs"
  "multicall_contracts (ReadContract a f # rs) = multicall_contracts rs"
  by (simp_all add: multicall_contracts_def)

lemma getTokenMetadata_returns:
  "\<exists>metadata s'. getTokenMetadata net addr s = (Inr metadata, s')
      \<and> multicall_contracts (sent s') = multicall_contracts (sent s)"
  by (auto simp: getTokenMetadata_def Let_def split: option.split sum.split)

lemma build_rewards_returns:
  "\<forall>a \<in> set addrs. map_of fees a \<noteq> None \<Longrightarrow>
   \<exists>new s'. build_rewards net fmt fees addrs rs s = (Inr (rs @ new), s')
      \<and> map address new = addrs
      \<and> (\<forall>r \<in> set new. \<exists>v. map_of fees (address r) = Some v \<and> amount r = bigint_toString v)
      \<and> multicall_contracts (sent s') = multicall_contracts (sent s)"
proof (induction addrs arbitrary: rs s)
  case Nil
  then show ?case by simp
next
  case (Cons a addrs)
  from Cons.prems obtain amt where amt: "map_of fees a = Some amt" by auto
  obtain metadata s1 where md: "getTokenMetadata net a s = (Inr metadata, s1)"
    and s1: "multicall_contracts (sent s1) = multicall_contracts (sent s)"
    using getTokenMetadata_returns by blast
  let ?r = "\<lparr> symbol = symbol metadata, decimals = decimals metadata, address = a,
              amount = bigint_toString amt, formattedAmount = fmt amt (decimals metadata) \<rparr>"
  from Cons.prems have "\<forall>a \<in> set addrs. map_of fees a \<noteq> None" by simp
  from Cons.IH[OF this, of "rs @ [?r]" s1]
  obtain new s' where new: "build_rewards net fmt fees addrs (rs @ [?r]) s1 = (Inr ((rs @ [?r]) @ new), s')"
    "map address new = addrs"
    "\<forall>r \<in> set new. \<exists>v. map_of fees (address r) = Some v \<and> amount r = bigint_toString v"
    "multicall_contracts (sent s') = multicall_contracts (sent s1)"
    by blast
  have "build_rewards net fmt fees (a # addrs) rs s = (Inr (rs @ (?r # new)), s')"
    using amt md new(1) by simp
  moreover have "map address (?r # new) = a # addrs" using new(2) by simp
  moreover have "\<forall>r \<in> set (?r # new). \<exists>v. map_of fees (address r) = Some v \<and> amount r = bigint_toString v"
    using new(3) amt by simp
  moreover have "multicall_contracts (sent s') = multicall_contracts (sent s)"
    using new(4) s1 by simp
  ultimately show ?case
    by (intro exI[of _ "?r # new"] exI[of _ s'] conjI)
qed

lemma collect_ok: "fees_ok acc \<Longrightarrow> fees_ok (collect entry acc)"
  by (cases entry; cases acc) (auto simp: fees_ok_def update_conv')

lemma fold_collect_ok: "fees_ok acc \<Longrightarrow> fees_ok (fold collect m acc)"
  by (induction m arbitrary: acc) (simp_all add: collect_ok)

lemma digits10_nonempty: "digits10 n \<noteq> []"
  by (subst digits10.simps) simp

lemma digit_char_zero: "d < 10 \<Longrightarrow> digit_char d = CHR ''0'' \<Longrightarrow> d = 0"
  by (auto simp: digit_char_def nth_Cons' split: if_splits)

lemma digits10_zero: "digits10 n = ''0'' \<Longrightarrow> n = 0"
proof (cases "n < 10")
  case True
  assume "digits10 n = ''0''"
  with True have "digit_char n = CHR ''0''" by (subst (asm) digits10.simps) simp
  with True show ?thesis by (rule digit_char_zero)
next
  case False
  assume e: "digits10 n = ''0''"
  from False have "digits10 n = digits10 (n div 10) @ [digit_char (n mod 10)]"
    by (subst digits10.simps) simp
  with e have "digits10 (n div 10) = []" by simp
  with digits10_nonempty show ?thesis by blast
qed

lemma bigint_toString_positive: "0 < v \<Longrightarrow> bigint_toString v \<noteq> ''0''"
proof
  assume v: "0 < v" and e: "bigint_toString v = ''0''"
  then have "digits10 (nat v) = ''0''" by (simp add: bigint_toString_def)
  then have "nat v = 0" by (rule digits10_zero)
  with v show False by simp
qed

lemma multicall_contracts_batches:
  "multicall_contracts (map (\<lambda>c. Multicall (availableFees_contracts feeOwner c)) cs)
     = availableFees_contracts feeOwner (concat cs)"
  by (induction cs) (simp_all add: availableFees_contracts_def)

text \<open>
  C2. For every owner and candidate list, \<open>getTotalClaimable\<close> returns a snapshot; the
  contract calls of the multicalls it sends are \<open>availableFees(owner, t)\<close> for \<open>t\<close> over
  the candidate list with the wrapped-native address appended; every reward of the
  snapshot has an amount that is the decimal string of an integer greater than 0, never
  \<open>0\<close>; and \<open>tokenAddresses\<close> is the sequence of the addresses of \<open>rewards\<close>.
\<close>

theorem getTotalClaimable_snapshot:
  "\<exists>snapshot s'. getTotalClaimable net fmt feeOwner tokenAddrs s = (Inr snapshot, s')
     \<and> multicall_contracts (sent s') =
         multicall_contracts (sent s) @ availableFees_contracts feeOwner (tokenAddrs @ [WETH_ADDRESS])
     \<and> (\<forall>r \<in> set (rewards snapshot). amount r \<noteq> ''0'' \<and> (\<exists>v. 0 < v \<and> amount r = bigint_toString v))
     \<and> tokenAddresses snapshot = map address (rewards snapshot)"
proof -
  let ?xs = "tokenAddrs @ [WETH_ADDRESS]"
  let ?acc = "fold collect (concat (chunk_results net feeOwner ?xs 0 s)) ([], [])"
  let ?s1 = "s\<lparr> sent := sent s @ map (\<lambda>c. Multicall (availableFees_contracts feeOwner c)) (batches ?xs 0) \<rparr>"
  obtain fees addrs where acc: "?acc = (fees, addrs)" by (cases ?acc)
  have loop: "batch_loop net feeOwner ?xs 0 ([], []) s = (Inr (fees, addrs), ?s1)"
    using batch_loop_chunks[of net feeOwner ?xs 0 "([], [])" s] acc by simp
  have "fees_ok ([], [])" by (simp add: fees_ok_def)
  then have "fees_ok ?acc" by (rule fold_collect_ok)
  with acc have pos: "\<forall>k v. map_of fees k = Some v \<longrightarrow> 0 < v"
    and dom: "\<forall>a \<in> set addrs. map_of fees a \<noteq> None"
    by (simp_all add: fees_ok_def)
  from build_rewards_returns[OF dom, of net fmt "[]" ?s1]
  obtain new s2 where new: "build_rewards net fmt fees addrs [] ?s1 = (Inr new, s2)"
    "map address new = addrs"
    "\<forall>r \<in> set new. \<exists>v. map_of fees (address r) = Some v \<and> amount r = bigint_toString v"
    "multicall_contracts (sent s2) = multicall_contracts (sent ?s1)"
    by auto
  have res: "getTotalClaimable net fmt feeOwner tokenAddrs s
           = (Inr \<lparr> rewards = new, tokenAddresses = addrs \<rparr>, s2)"
    using loop new(1) by (simp add: getTotalClaimable_def)
  have reqs: "multicall_contracts (sent s2) =
         multicall_contracts (sent s) @ availableFees_contracts feeOwner ?xs"
    using new(4) by (simp add: multicall_contracts_batches concat_batches)
  have amounts: "\<forall>r \<in> set new. amount r \<noteq> ''0'' \<and> (\<exists>v. 0 < v \<and> amount r = bigint_toString v)"
  proof
    fix r assume "r \<in> set new"
    with new(3) obtain v where v: "map_of fees (address r) = Some v" "amount r = bigint_toString v"
      by blast
    with pos have "0 < v" by blast
    with v(2) show "amount r \<noteq> ''0'' \<and> (\<exists>v. 0 < v \<and> amount r = bigint_toString v)"
      using bigint_toString_positive by auto
  qed
  show ?thesis
    using res reqs amounts new(2) by simp
qed

theorem getTotalClaimable_snapshot_witness:
  "fst (getTotalClaimable net_partial (\<lambda>amt dec. ''5.0000e-18'') ''0xfeeowner'' [''0xaa''] fresh_state)
     = Inr \<lparr> rewards = [\<lparr> symbol = ''0xaa'', decimals = 18, address = ''0xaa'', amount = ''5'',
                           formattedAmount = ''5.0000e-18'' \<rparr>],
             tokenAddresses = [''0xaa''] \<rparr>"
  using getTotalClaimable_snapshot[of net_partial "\<lambda>amt dec. ''5.0000e-18''" "''0xfeeowner''"
          "[''0xaa'']" fresh_state]
  by (simp add: getTotalClaimable_def batch_loop.simps[of _ _ _ 0] batch_loop.simps[of _ _ _ 500]
        MULTICALL_BATCH_SIZE_def slice_def
        getFeesForAddressesMulticall_def Let_def net_partial_def fresh_state_def
        availableFees_contracts_def store_result_def upt_rec[of 0] upt_rec[of 1] upt_rec[of 2]
        WETH_ADDRESS_def getTokenMetadata_def toLowerCase_def toLowerCase_char_def
        bigint_toString_def digits10.simps[of 5] digit_char_def)

section \<open>Lemmas: the metadata resolver\<close>

lemma weth_hard_coded:
  "weth_cache_ok s \<longrightarrow>
      weth_cache_ok (snd (getTokenMetadata net addr s))
    \<and> (toLowerCase addr = toLowerCase WETH_ADDRESS \<longrightarrow>
          fst (getTokenMetadata net addr s) = Inr \<lparr> symbol = ''WETH'', decimals = 18 \<rparr>
        \<and> sent (snd (getTokenMetadata net addr s)) = sent s)"
  by (cases "readSymbol net (sent s) addr"; cases "readDecimals net (sent s) addr")
     (auto simp: getTokenMetadata_def weth_cache_ok_def Let_def split: option.split)

lemma lower_example: "toLowerCase ''0xAbCdEf0123'' = ''0xabcdef0123''"
  by (simp add: toLowerCase_def toLowerCase_char_def)

lemma lower_weth: "toLowerCase WETH_ADDRESS = WETH_ADDRESS"
  by (simp add: toLowerCase_def toLowerCase_char_def WETH_ADDRESS_def)

text \<open>
  C9. For every token address, metadata resolution returns a value and never an error,
  and it never removes or changes an entry of the cache. On a cache miss for an address
  other than the wrapped-native one: when \<open>symbol()\<close> or \<open>decimals()\<close> fails, the result
  is the fallback (the first 8 characters of the address, 18 decimals) and the cache is
  left as it was, so a later call asks the network again; when both succeed, the result
  is stored under the lower-cased address. The wrapped-native address resolves to the
  hard-coded \<open>WETH\<close>, 18 decimals, without any request. A cached entry is returned as it
  is, without any request.
\<close>

theorem getTokenMetadata_degrades:
  "(\<exists>metadata s'. getTokenMetadata net addr s = (Inr metadata, s')
       \<and> (\<forall>k v. tokenMetadataCache s k = Some v \<longrightarrow> tokenMetadataCache s' k = Some v))
   \<and> (tokenMetadataCache s (toLowerCase addr) = None
        \<and> toLowerCase addr \<noteq> toLowerCase WETH_ADDRESS
        \<and> (isl (readSymbol net (sent s) addr) \<or> isl (readDecimals net (sent s) addr)) \<longrightarrow>
       getTokenMetadata net addr s =
         (Inr \<lparr> symbol = take 8 addr, decimals = 18 \<rparr>,
          s\<lparr> sent := sent s @ [ReadContract addr ''symbol'', ReadContract addr ''decimals''] \<rparr>))
   \<and> (tokenMetadataCache s (toLowerCase addr) = None
        \<and> toLowerCase addr \<noteq> toLowerCase WETH_ADDRESS
        \<and> readSymbol net (sent s) addr = Inr symb \<and> readDecimals net (sent s) addr = Inr decs \<longrightarrow>
       getTokenMetadata net addr s =
         (Inr \<lparr> symbol = symb, decimals = decs \<rparr>,
          s\<lparr> sent := sent s @ [ReadContract addr ''symbol'', ReadContract addr ''decimals''],
             tokenMetadataCache :=
               (tokenMetadataCache s)(toLowerCase addr \<mapsto> \<lparr> symbol = symb, decimals = decs \<rparr>) \<rparr>))
   \<and> (tokenMetadataCache s (toLowerCase addr) = None
        \<and> toLowerCase addr = toLowerCase WETH_ADDRESS \<longrightarrow>
       getTokenMetadata net addr s =
         (Inr \<lparr> symbol = ''WETH'', decimals = 18 \<rparr>,
          s\<lparr> tokenMetadataCache :=
               (tokenMetadataCache s)(toLowerCase addr \<mapsto> \<lparr> symbol = ''WETH'', decimals = 18 \<rparr>) \<rparr>))
   \<and> (tokenMetadataCache s (toLowerCase addr) = Some cached \<longrightarrow>
       getTokenMetadata net addr s = (Inr cached, s))
   \<and> (weth_cache_ok s \<longrightarrow>
         weth_cache_ok (snd (getTokenMetadata net addr s))
       \<and> (toLowerCase addr = toLowerCase WETH_ADDRESS \<longrightarrow>
             fst (getTokenMetadata net addr s) = Inr \<lparr> symbol = ''WETH'', decimals = 18 \<rparr>
           \<and> sent (snd (getTokenMetadata net addr s)) = sent s))"
proof -
  have 1: "\<exists>metadata s'. getTokenMetadata net addr s = (Inr metadata, s')
       \<and> (\<forall>k v. tokenMetadataCache s k = Some v \<longrightarrow> tokenMetadataCache s' k = Some v)"
    by (cases "readSymbol net (sent s) addr"; cases "readDecimals net (sent s) addr")
       (auto simp: getTokenMetadata_def Let_def split: option.split)
  have 2: "tokenMetadataCache s (toLowerCase addr) = None
        \<and> toLowerCase addr \<noteq> toLowerCase WETH_ADDRESS
        \<and> (isl (readSymbol net (sent s) addr) \<or> isl (readDecimals net (sent s) addr)) \<longrightarrow>
       getTokenMetadata net addr s =
         (Inr \<lparr> symbol = take 8 addr, decimals = 18 \<rparr>,
          s\<lparr> sent := sent s @ [ReadContract addr ''symbol'', ReadContract addr ''decimals''] \<rparr>)"
    by (cases "readSymbol net (sent s) addr"; cases "readDecimals net (sent s) addr")
       (simp_all add: getTokenMetadata_def Let_def)
  have 3: "tokenMetadataCache s (toLowerCase addr) = None
        \<and> toLowerCase addr \<noteq> toLowerCase WETH_ADDRESS
        \<and> readSymbol net (sent s) addr = Inr symb \<and> readDecimals net (sent s) addr = Inr decs \<longrightarrow>
       getTokenMetadata net addr s =
         (Inr \<lparr> symbol = symb, decimals = decs \<rparr>,
          s\<lparr> sent := sent s @ [ReadContract addr ''symbol'', ReadContract addr ''decimals''],
             tokenMetadataCache :=
               (tokenMetadataCache s)(toLowerCase addr \<mapsto> \<lparr> symbol = symb, decimals = decs \<rparr>) \<rparr>)"
    by (simp add: getTokenMetadata_def Let_def)
  have 4: "tokenMetadataCache s (toLowerCase addr) = None
        \<and> toLowerCase addr = toLowerCase WETH_ADDRESS \<longrightarrow>
       getTokenMetadata net addr s =
         (Inr \<lparr> symbol = ''WETH'', decimals = 18 \<rparr>,
          s\<lparr> tokenMetadataCache :=
               (tokenMetadataCache s)(toLowerCase addr \<mapsto> \<lparr> symbol = ''WETH'', decimals = 18 \<rparr>) \<rparr>)"
    by (simp add: getTokenMetadata_def Let_def)
  have 5: "tokenMetadataCache s (toLowerCase addr) = Some cached \<longrightarrow>
       getTokenMetadata net addr s = (Inr cached, s)"
    by (simp add: getTokenMetadata_def)
  from 1 2 3 4 5 weth_hard_coded[of s net addr] show ?thesis by blast
qed

theorem getTokenMetadata_degrades_witness:
  "getTokenMetadata net_flaky ''0xAbCdEf0123'' fresh_state
     = (Inr \<lparr> symbol = ''0xAbCdEf'', decimals = 18 \<rparr>,
        \<lparr> tokenMetadataCache = Map.empty,
          sent = [ReadContract ''0xAbCdEf0123'' ''symbol'', ReadContract ''0xAbCdEf0123'' ''decimals''] \<rparr>)
   \<and> fst (getTokenMetadata net_flaky ''0xAbCdEf0123''
            (snd (getTokenMetadata net_flaky ''0xAbCdEf0123'' fresh_state)))
     = Inr \<lparr> symbol = ''AAA'', decimals = 6 \<rparr>
   \<and> tokenMetadataCache
        (snd (getTokenMetadata net_flaky ''0xAbCdEf0123''
               (snd (getTokenMetadata net_flaky ''0xAbCdEf0123'' fresh_state)))) ''0xabcdef0123''
     = Some \<lparr> symbol = ''AAA'', decimals = 6 \<rparr>
   \<and> getTokenMetadata net_down WETH_ADDRESS fresh_state
     = (Inr \<lparr> symbol = ''WETH'', decimals = 18 \<rparr>,
        \<lparr> tokenMetadataCache = [WETH_ADDRESS \<mapsto> \<lparr> symbol = ''WETH'', decimals = 18 \<rparr>], sent = [] \<rparr>)"
proof -
  have a: "tokenMetadataCache fresh_state (toLowerCase ''0xAbCdEf0123'') = None
        \<and> toLowerCase ''0xAbCdEf0123'' \<noteq> toLowerCase WETH_ADDRESS
        \<and> (isl (readSymbol net_flaky (sent fresh_state) ''0xAbCdEf0123'')
            \<or> isl (readDecimals net_flaky (sent fresh_state) ''0xAbCdEf0123''))"
    unfolding lower_example lower_weth
    by (simp add: fresh_state_def net_flaky_def WETH_ADDRESS_def)
  with getTokenMetadata_degrades[of net_flaky "''0xAbCdEf0123''" fresh_state]
  have first: "getTokenMetadata net_flaky ''0xAbCdEf0123'' fresh_state
     = (Inr \<lparr> symbol = take 8 ''0xAbCdEf0123'', decimals = 18 \<rparr>,
        fresh_state\<lparr> sent := sent fresh_state @
           [ReadContract ''0xAbCdEf0123'' ''symbol'', ReadContract ''0xAbCdEf0123'' ''decimals''] \<rparr>)"
    by blast
  let ?s1 = "fresh_state\<lparr> sent := sent fresh_state @
           [ReadContract ''0xAbCdEf0123'' ''symbol'', ReadContract ''0xAbCdEf0123'' ''decimals''] \<rparr>"
  have b: "tokenMetadataCache ?s1 (toLowerCase ''0xAbCdEf0123'') = None
        \<and> toLowerCase ''0xAbCdEf0123'' \<noteq> toLowerCase WETH_ADDRESS
        \<and> readSymbol net_flaky (sent ?s1) ''0xAbCdEf0123'' = Inr ''AAA''
        \<and> readDecimals net_flaky (sent ?s1) ''0xAbCdEf0123'' = Inr 6"
    unfolding lower_example lower_weth
    by (simp add: fresh_state_def net_flaky_def WETH_ADDRESS_def)
  with getTokenMetadata_degrades[of net_flaky "''0xAbCdEf0123''" ?s1 "''AAA''" 6]
  have second: "getTokenMetadata net_flaky ''0xAbCdEf0123'' ?s1 =
         (Inr \<lparr> symbol = ''AAA'', decimals = 6 \<rparr>,
          ?s1\<lparr> sent := sent ?s1 @ [ReadContract ''0xAbCdEf0123'' ''symbol'', ReadContract ''0xAbCdEf0123'' ''decimals''],
             tokenMetadataCache :=
               (tokenMetadataCache ?s1)(toLowerCase ''0xAbCdEf0123'' \<mapsto> \<lparr> symbol = ''AAA'', decimals = 6 \<rparr>) \<rparr>)"
    by blast
  have c: "tokenMetadataCache fresh_state (toLowerCase WETH_ADDRESS) = None
        \<and> toLowerCase WETH_ADDRESS = toLowerCase WETH_ADDRESS"
    by (simp add: fresh_state_def)
  with getTokenMetadata_degrades[of net_down WETH_ADDRESS fresh_state]
  have third: "getTokenMetadata net_down WETH_ADDRESS fresh_state =
         (Inr \<lparr> symbol = ''WETH'', decimals = 18 \<rparr>,
          fresh_state\<lparr> tokenMetadataCache :=
               (tokenMetadataCache fresh_state)(toLowerCase WETH_ADDRESS \<mapsto> \<lparr> symbol = ''WETH'', decimals = 18 \<rparr>) \<rparr>)"
    by blast
  show ?thesis
    by (simp only: first second third snd_conv fst_conv)
       (simp add: lower_example lower_weth fresh_state_def)
qed


section \<open>Lemmas: the result cache\<close>

lemma lower_ABC: "toLowerCase ''0xABC'' = ''0xabc''" "toLowerCase ''0xabc'' = ''0xabc''"
  by (simp_all add: toLowerCase_def toLowerCase_char_def)

lemma get_after_put:
  "w \<noteq> [] \<and> w' \<noteq> [] \<and> toLowerCase w' = toLowerCase w
     \<and> (refresh_q = Some ''true'' \<or> tokenCache st (toLowerCase w) = None)
     \<and> fetchTokensByCreator (discoveryCalls st) w = Inr d
     \<and> refresh_q' \<noteq> Some ''true'' \<and> now_read' - now_write < CACHE_TTL \<longrightarrow>
   get_api_tokens fetchTokensByCreator' now_read' now_write' (Some w') refresh_q'
       (snd (get_api_tokens fetchTokensByCreator now_read now_write (Some w) refresh_q st))
     = (d, snd (get_api_tokens fetchTokensByCreator now_read now_write (Some w) refresh_q st))"
  by (auto simp: get_api_tokens_def Let_def)

text \<open>
  C8. For every owner key (the lower-cased wallet address): a \<open>GET /api/tokens\<close> without
  \<open>refresh=true\<close> that finds an entry less than 60000 ms old returns the stored
  response and calls neither \<open>fetchTokensByCreator\<close> nor changes the cache; a request that
  misses (or is forced) and whose recomputation succeeds stores the response with the
  time of the write, and a later request for the same key within the TTL returns that
  very response without recomputation. \<open>POST /api/cache/invalidate\<close> removes the entry,
  and so does \<open>refresh=true\<close> before it recomputes; the request that follows an
  invalidation always calls \<open>fetchTokensByCreator\<close>, whatever the clock says.
\<close>

theorem result_cache:
  "(w \<noteq> [] \<and> refresh_q \<noteq> Some ''true'' \<and> tokenCache st (toLowerCase w) = Some (d, t)
      \<and> now_read - t < CACHE_TTL \<longrightarrow>
      get_api_tokens fetchTokensByCreator now_read now_write (Some w) refresh_q st = (d, st))
   \<and> (w \<noteq> [] \<and> (refresh_q = Some ''true'' \<or> tokenCache st (toLowerCase w) = None)
      \<and> fetchTokensByCreator (discoveryCalls st) w = Inr d \<longrightarrow>
      get_api_tokens fetchTokensByCreator now_read now_write (Some w) refresh_q st =
        (d, st\<lparr> tokenCache := (tokenCache st)(toLowerCase w \<mapsto> (d, now_write)),
                discoveryCalls := discoveryCalls st @ [w] \<rparr>))
   \<and> (w \<noteq> [] \<longrightarrow>
      post_cache_invalidate (Some w) st =
        (True, st\<lparr> tokenCache := (tokenCache st)(toLowerCase w := None) \<rparr>))
   \<and> (w \<noteq> [] \<and> (refresh_q = Some ''true'' \<or> tokenCache st (toLowerCase w) = None) \<longrightarrow>
      discoveryCalls (snd (get_api_tokens fetchTokensByCreator now_read now_write (Some w) refresh_q st))
        = discoveryCalls st @ [w]
      \<and> fst (get_api_tokens fetchTokensByCreator now_read now_write (Some w) refresh_q st)
        = (case fetchTokensByCreator (discoveryCalls st) w of
             Inr fresh \<Rightarrow> fresh | Inl e \<Rightarrow> empty_response)
      \<and> (isl (fetchTokensByCreator (discoveryCalls st) w) \<longrightarrow>
          tokenCache (snd (get_api_tokens fetchTokensByCreator now_read now_write (Some w) refresh_q st))
            (toLowerCase w) = None))
   \<and> (w \<noteq> [] \<and> w' \<noteq> [] \<and> toLowerCase w' = toLowerCase w \<longrightarrow>
      discoveryCalls (snd (get_api_tokens fetchTokensByCreator now_read now_write (Some w') refresh_q
                             (snd (post_cache_invalidate (Some w) st))))
        = discoveryCalls st @ [w'])
   \<and> (w \<noteq> [] \<and> w' \<noteq> [] \<and> toLowerCase w' = toLowerCase w
      \<and> (refresh_q = Some ''true'' \<or> tokenCache st (toLowerCase w) = None)
      \<and> fetchTokensByCreator (discoveryCalls st) w = Inr d
      \<and> refresh_q' \<noteq> Some ''true'' \<and> now_read' - now_write < CACHE_TTL \<longrightarrow>
      get_api_tokens fetchTokensByCreator' now_read' now_write' (Some w') refresh_q'
          (snd (get_api_tokens fetchTokensByCreator now_read now_write (Some w) refresh_q st))
        = (d, snd (get_api_tokens fetchTokensByCreator now_read now_write (Some w) refresh_q st)))"
proof -
  have 1: "w \<noteq> [] \<and> refresh_q \<noteq> Some ''true'' \<and> tokenCache st (toLowerCase w) = Some (d, t)
      \<and> now_read - t < CACHE_TTL \<longrightarrow>
      get_api_tokens fetchTokensByCreator now_read now_write (Some w) refresh_q st = (d, st)"
    by (simp add: get_api_tokens_def Let_def)
  have 2: "w \<noteq> [] \<and> (refresh_q = Some ''true'' \<or> tokenCache st (toLowerCase w) = None)
      \<and> fetchTokensByCreator (discoveryCalls st) w = Inr d \<longrightarrow>
      get_api_tokens fetchTokensByCreator now_read now_write (Some w) refresh_q st =
        (d, st\<lparr> tokenCache := (tokenCache st)(toLowerCase w \<mapsto> (d, now_write)),
                discoveryCalls := discoveryCalls st @ [w] \<rparr>)"
    by (auto simp: get_api_tokens_def Let_def)
  have 3: "w \<noteq> [] \<longrightarrow>
      post_cache_invalidate (Some w) st =
        (True, st\<lparr> tokenCache := (tokenCache st)(toLowerCase w := None) \<rparr>)"
    by (simp add: post_cache_invalidate_def)
  have 4: "w \<noteq> [] \<and> (refresh_q = Some ''true'' \<or> tokenCache st (toLowerCase w) = None) \<longrightarrow>
      discoveryCalls (snd (get_api_tokens fetchTokensByCreator now_read now_write (Some w) refresh_q st))
        = discoveryCalls st @ [w]
      \<and> fst (get_api_tokens fetchTokensByCreator now_read now_write (Some w) refresh_q st)
        = (case fetchTokensByCreator (discoveryCalls st) w of
             Inr fresh \<Rightarrow> fresh | Inl e \<Rightarrow> empty_response)
      \<and> (isl (fetchTokensByCreator (discoveryCalls st) w) \<longrightarrow>
          tokenCache (snd (get_api_tokens fetchTokensByCreator now_read now_write (Some w) refresh_q st))
            (toLowerCase w) = None)"
    by (cases "fetchTokensByCreator (discoveryCalls st) w") (auto simp: get_api_tokens_def Let_def)
  have 5: "w \<noteq> [] \<and> w' \<noteq> [] \<and> toLowerCase w' = toLowerCase w \<longrightarrow>
      discoveryCalls (snd (get_api_tokens fetchTokensByCreator now_read now_write (Some w') refresh_q
                             (snd (post_cache_invalidate (Some w) st))))
        = discoveryCalls st @ [w']"
    by (cases "fetchTokensByCreator (discoveryCalls st) w'")
       (auto simp: get_api_tokens_def post_cache_invalidate_def Let_def)
  from 1 2 3 4 5
    get_after_put[of w w' refresh_q st fetchTokensByCreator d refresh_q' now_read' now_write
      fetchTokensByCreator' now_write' now_read]
  show ?thesis by blast
qed


theorem result_cache_witness:
  "get_api_tokens discovery_one 1000 1001 (Some ''0xABC'') (Some ''true'') fresh_routes
     = (one_reward, cached_routes)
   \<and> get_api_tokens discovery_one 50000 50001 (Some ''0xabc'') None cached_routes
     = (one_reward, cached_routes)
   \<and> post_cache_invalidate (Some ''0xABC'') cached_routes
     = (True, \<lparr> tokenCache = Map.empty, discoveryCalls = [''0xABC''] \<rparr>)
   \<and> discoveryCalls (snd (get_api_tokens discovery_one 50000 50001 (Some ''0xabc'') None
                            (snd (post_cache_invalidate (Some ''0xABC'') cached_routes))))
     = [''0xABC'', ''0xabc'']"
proof -
  have h_put: "''0xABC'' \<noteq> []
      \<and> (Some ''true'' = Some ''true'' \<or> tokenCache fresh_routes (toLowerCase ''0xABC'') = None)
      \<and> discovery_one (discoveryCalls fresh_routes) ''0xABC'' = Inr one_reward"
    by (simp add: discovery_one_def)
  with result_cache[where w = "''0xABC''" and refresh_q = "Some ''true''" and st = fresh_routes
         and d = one_reward and fetchTokensByCreator = discovery_one and now_read = 1000
         and now_write = 1001]
  have "get_api_tokens discovery_one 1000 1001 (Some ''0xABC'') (Some ''true'') fresh_routes
     = (one_reward,
        fresh_routes\<lparr> tokenCache := (tokenCache fresh_routes)(toLowerCase ''0xABC'' \<mapsto> (one_reward, 1001)),
                      discoveryCalls := discoveryCalls fresh_routes @ [''0xABC''] \<rparr>)"
    by blast
  then have put: "get_api_tokens discovery_one 1000 1001 (Some ''0xABC'') (Some ''true'') fresh_routes
     = (one_reward, cached_routes)"
    by (simp add: lower_ABC fresh_routes_def cached_routes_def)
  have h_hit: "''0xabc'' \<noteq> [] \<and> None \<noteq> Some ''true''
      \<and> tokenCache cached_routes (toLowerCase ''0xabc'') = Some (one_reward, 1001)
      \<and> 50000 - 1001 < CACHE_TTL"
    by (simp add: lower_ABC cached_routes_def CACHE_TTL_def)
  with result_cache[where w = "''0xabc''" and refresh_q = None and st = cached_routes
         and d = one_reward and t = 1001 and fetchTokensByCreator = discovery_one
         and now_read = 50000 and now_write = 50001]
  have hit: "get_api_tokens discovery_one 50000 50001 (Some ''0xabc'') None cached_routes
     = (one_reward, cached_routes)"
    by blast
  have h_inv: "''0xABC'' \<noteq> [] \<and> ''0xabc'' \<noteq> [] \<and> toLowerCase ''0xabc'' = toLowerCase ''0xABC''"
    by (simp add: lower_ABC)
  with result_cache[where w = "''0xABC''" and w' = "''0xabc''" and refresh_q = None
         and st = cached_routes and fetchTokensByCreator = discovery_one
         and now_read = 50000 and now_write = 50001]
  have both: "post_cache_invalidate (Some ''0xABC'') cached_routes
          = (True, cached_routes\<lparr> tokenCache := (tokenCache cached_routes)(toLowerCase ''0xABC'' := None) \<rparr>)
      \<and> discoveryCalls (snd (get_api_tokens discovery_one 50000 50001 (Some ''0xabc'') None
                            (snd (post_cache_invalidate (Some ''0xABC'') cached_routes))))
          = discoveryCalls cached_routes @ [''0xabc'']"
    by blast
  from both have "post_cache_invalidate (Some ''0xABC'') cached_routes
          = (True, cached_routes\<lparr> tokenCache := (tokenCache cached_routes)(toLowerCase ''0xABC'' := None) \<rparr>)"
    by (rule conjunct1)
  then have inv: "post_cache_invalidate (Some ''0xABC'') cached_routes
     = (True, \<lparr> tokenCache = Map.empty, discoveryCalls = [''0xABC''] \<rparr>)"
    by (simp add: lower_ABC cached_routes_def)
  from both have "discoveryCalls (snd (get_api_tokens discovery_one 50000 50001 (Some ''0xabc'') None
                            (snd (post_cache_invalidate (Some ''0xABC'') cached_routes))))
          = discoveryCalls cached_routes @ [''0xabc'']"
    by (rule conjunct2)
  moreover have "discoveryCalls cached_routes @ [''0xabc''] = [''0xABC'', ''0xabc'']"
    by (simp add: cached_routes_def)
  ultimately have miss: "discoveryCalls (snd (get_api_tokens discovery_one 50000 50001 (Some ''0xabc'') None
                            (snd (post_cache_invalidate (Some ''0xABC'') cached_routes))))
     = [''0xABC'', ''0xabc'']"
    by (rule trans)
  from put hit inv miss show ?thesis by blast
qed

section \<open>Lemmas: the refresh and poll controller\<close>

declare poll_loop.simps [simp del]

lemma poll_trace_Suc:
  "poll_trace w force ms (Suc k) = [Fetch w force, Wait ms] @ poll_trace w force ms k"
  by (simp add: poll_trace_def)



lemma home_state_update_order [simp]:
  "s\<lparr> effects := e, queryData := q \<rparr> = s\<lparr> queryData := q, effects := e \<rparr>"
  by simp

lemma poll_loop_first_zero:
  "k = nat (j - a) \<Longrightarrow> a \<le> j \<Longrightarrow> j \<le> n \<Longrightarrow>
   (\<forall>i. a \<le> i \<and> i < j \<longrightarrow> (\<exists>d. server i = response True d \<and> rewards (totalClaimable d) \<noteq> [])) \<Longrightarrow>
   server j = response True d0 \<Longrightarrow> rewards (totalClaimable d0) = [] \<Longrightarrow>
   poll_loop server w force True ms n a lr s =
     (Inr (Some d0), s\<lparr> queryData := Some d0, effects := effects s @ poll_trace w force ms k \<rparr>)"
proof (induction k arbitrary: a lr s)
  case 0
  then have "a = j" by simp
  with 0 show ?case
    by (subst poll_loop.simps) (simp add: Let_def poll_trace_def)
next
  case (Suc k)
  then have lt: "a < j" by simp
  with Suc.prems obtain d where d: "server a = response True d" "rewards (totalClaimable d) \<noteq> []"
    by (metis order_refl)
  let ?s = "s\<lparr> effects := effects s @ [Fetch w force], queryData := Some d,
               effects := effects s @ [Fetch w force] @ [Wait ms] \<rparr>"
  have step: "poll_loop server w force True ms n a lr s
            = poll_loop server w force True ms n (a + 1) (Some d)
                (s\<lparr> queryData := Some d, effects := effects s @ [Fetch w force, Wait ms] \<rparr>)"
    using lt Suc.prems(3) d by (subst poll_loop.simps) (simp add: Let_def)
  have "poll_loop server w force True ms n (a + 1) (Some d)
          (s\<lparr> queryData := Some d, effects := effects s @ [Fetch w force, Wait ms] \<rparr>)
      = (Inr (Some d0),
         (s\<lparr> queryData := Some d, effects := effects s @ [Fetch w force, Wait ms] \<rparr>)
           \<lparr> queryData := Some d0,
             effects := effects (s\<lparr> queryData := Some d, effects := effects s @ [Fetch w force, Wait ms] \<rparr>)
                          @ poll_trace w force ms k \<rparr>)"
    using Suc.prems lt by (intro Suc.IH) auto
  with step show ?case by (simp add: poll_trace_Suc)
qed

lemma poll_loop_exhausted:
  "k = nat (n - a) \<Longrightarrow> a \<le> n \<Longrightarrow>
   (\<forall>i. a \<le> i \<and> i \<le> n \<longrightarrow> (\<exists>d. server i = response True d \<and> rewards (totalClaimable d) \<noteq> [])) \<Longrightarrow>
   server n = response True dn \<Longrightarrow>
   poll_loop server w force True ms n a lr s =
     (Inr (Some dn), s\<lparr> queryData := Some dn, effects := effects s @ poll_trace w force ms k \<rparr>)"
proof (induction k arbitrary: a lr s)
  case 0
  then have a: "a = n" by simp
  from 0 a have nz: "rewards (totalClaimable dn) \<noteq> []" by auto
  have "poll_loop server w force True ms n (n + 1) (Some dn)
           (s\<lparr> queryData := Some dn, effects := effects s @ [Fetch w force] \<rparr>)
      = (Inr (Some dn), s\<lparr> queryData := Some dn, effects := effects s @ [Fetch w force] \<rparr>)"
    by (subst poll_loop.simps) simp
  with 0 a nz show ?case
    by (subst poll_loop.simps) (simp add: Let_def poll_trace_def)
next
  case (Suc k)
  then have lt: "a < n" by simp
  with Suc.prems obtain d where d: "server a = response True d" "rewards (totalClaimable d) \<noteq> []"
    by (metis order_refl)
  have step: "poll_loop server w force True ms n a lr s
            = poll_loop server w force True ms n (a + 1) (Some d)
                (s\<lparr> queryData := Some d, effects := effects s @ [Fetch w force, Wait ms] \<rparr>)"
    using lt d by (subst poll_loop.simps) (simp add: Let_def)
  have "poll_loop server w force True ms n (a + 1) (Some d)
          (s\<lparr> queryData := Some d, effects := effects s @ [Fetch w force, Wait ms] \<rparr>)
      = (Inr (Some dn),
         (s\<lparr> queryData := Some d, effects := effects s @ [Fetch w force, Wait ms] \<rparr>)
           \<lparr> queryData := Some dn,
             effects := effects (s\<lparr> queryData := Some d, effects := effects s @ [Fetch w force, Wait ms] \<rparr>)
                          @ poll_trace w force ms k \<rparr>)"
    using Suc.prems lt by (intro Suc.IH) auto
  with step show ?case by (simp add: poll_trace_Suc)
qed

lemma poll_loop_shape:
  "\<exists>E. effects (snd (poll_loop server w force poll ms n a lr s)) = effects s @ E
      \<and> ((E = [] \<and> n < a) \<or> (\<exists>k. a + int k \<le> n \<and> E = poll_trace w force ms k))"
proof (induction server w force poll ms n a lr s rule: poll_loop.induct)
  case (1 server w force poll ms n a lr s)
  show ?case
  proof (cases "a \<le> n")
    case False
    then show ?thesis by (subst poll_loop.simps) simp
  next
    case True
    have "a + int 0 \<le> n \<and> [Fetch w force] = poll_trace w force ms 0"
      using True by (simp add: poll_trace_def)
    then have one: "\<exists>k. a + int k \<le> n \<and> [Fetch w force] = poll_trace w force ms k" ..
    show ?thesis
    proof (cases "server a")
      case fetch_rejected
      with True one show ?thesis by (subst poll_loop.simps) (auto simp: Let_def)
    next
      case (response ok d)
      note IH1 = "1.IH"(1)[OF True refl response _ refl]
      note IH2 = "1.IH"(2)[OF True refl response _ refl]
      show ?thesis
      proof (cases "ok \<and> poll \<and> length (rewards (totalClaimable d)) \<noteq> 0")
        case False
        with True response one show ?thesis
          by (subst poll_loop.simps) (auto simp: Let_def)
      next
        case t: True
        show ?thesis
        proof (cases "a < n")
          case lt: True
          from IH1 t lt obtain E where E:
            "effects (snd (poll_loop server w force poll ms n (a + 1) (Some d)
                (s\<lparr> effects := effects s @ [Fetch w force], queryData := Some d,
                    effects := effects (s\<lparr> effects := effects s @ [Fetch w force], queryData := Some d \<rparr>) @ [Wait ms] \<rparr>)))
              = (effects s @ [Fetch w force] @ [Wait ms]) @ E"
            "(E = [] \<and> n < a + 1) \<or> (\<exists>k. a + 1 + int k \<le> n \<and> E = poll_trace w force ms k)"
            by (auto simp: Let_def)
          from E(2) lt obtain k where k: "a + 1 + int k \<le> n" "E = poll_trace w force ms k" by auto
          have "a + int (Suc k) \<le> n \<and> [Fetch w force, Wait ms] @ E = poll_trace w force ms (Suc k)"
            using k by (simp add: poll_trace_Suc)
          moreover have "effects (snd (poll_loop server w force poll ms n a lr s))
                 = effects s @ [Fetch w force, Wait ms] @ E"
            using True lt t response E(1) by (subst poll_loop.simps) (simp add: Let_def)
          ultimately show ?thesis by blast
        next
          case nlt: False
          with True have an: "a = n" by simp
          have "poll_loop server w force poll ms n (a + 1) (Some d)
                  (s\<lparr> queryData := Some d, effects := effects s @ [Fetch w force] \<rparr>)
              = (Inr (Some d), s\<lparr> queryData := Some d, effects := effects s @ [Fetch w force] \<rparr>)"
            using an by (subst poll_loop.simps) simp
          with True nlt t response one show ?thesis
            by (subst poll_loop.simps) (auto simp: Let_def)
        qed
      qed
    qed
  qed
qed


lemma fetch_count_trace: "fetch_count (poll_trace w force ms k) = Suc k"
  by (induction k) (simp_all add: poll_trace_def)

lemma wait_times_trace: "wait_times (poll_trace w force ms k) = replicate k ms"
  by (induction k) (simp_all add: poll_trace_def)

lemma refresh_admitted:
  "w \<noteq> [] \<Longrightarrow> \<not> refreshLock s \<Longrightarrow>
   refreshClaimableRewards server (Some w) options s =
     (let force = (case forceRefresh options of None \<Rightarrow> False | Some b \<Rightarrow> b);
          poll = (case pollForZero options of None \<Rightarrow> False | Some b \<Rightarrow> b);
          retries = (case maxRetries options of None \<Rightarrow> 6 | Some n \<Rightarrow> n);
          interval = (case intervalMs options of None \<Rightarrow> 2500 | Some n \<Rightarrow> n);
          run = poll_loop server w force poll interval (if poll then retries else 1) 1 None
                  (s\<lparr> refreshLock := True, isRefreshing := True, queryData := None \<rparr>)
      in (case fst run of Inr result \<Rightarrow> result | Inl error \<Rightarrow> None,
          (snd run)\<lparr> refreshLock := False, isRefreshing := False \<rparr>))"
  unfolding refreshClaimableRewards_def Let_def
  by (simp split: prod.split sum.split)







text \<open>
  C4. In poll-until-zero mode (wallet connected, guard free), with \<open>n\<close> the retry budget
  (\<open>maxRetries\<close>, 6 when absent) and \<open>ms\<close> the interval (\<open>intervalMs\<close>, 2500 when absent):
  the effects of the call are either none (only when \<open>n < 1\<close>) or \<open>k + 1\<close> fetches with a
  wait of \<open>ms\<close> between two consecutive ones, for some \<open>k < n\<close>; so there are at most
  \<open>n\<close> fetches. When the fetches at attempts \<open>1 .. j - 1\<close> return nonzero rewards and the
  one at attempt \<open>j \<le> n\<close> returns zero rewards, the call returns that snapshot after
  exactly \<open>j\<close> fetches and \<open>j - 1\<close> waits. When all \<open>n\<close> fetches return nonzero rewards,
  the call returns the snapshot of the last one, after \<open>n\<close> fetches and \<open>n - 1\<close> waits.
\<close>

theorem poll_until_zero:
  "let options = \<lparr> forceRefresh = fr, pollForZero = Some True, maxRetries = mr, intervalMs = im \<rparr>;
       force = (case fr of None \<Rightarrow> False | Some b \<Rightarrow> b);
       n = (case mr of None \<Rightarrow> 6 | Some r \<Rightarrow> r);
       ms = (case im of None \<Rightarrow> 2500 | Some i \<Rightarrow> i);
       result = fst (refreshClaimableRewards server (Some w) options s);
       s' = snd (refreshClaimableRewards server (Some w) options s)
   in w \<noteq> [] \<and> \<not> refreshLock s \<longrightarrow>
        (\<exists>E. effects s' = effects s @ E
            \<and> ((E = [] \<and> n < 1) \<or> (\<exists>k. int k < n \<and> E = poll_trace w force ms k))
            \<and> (0 \<le> n \<longrightarrow> int (fetch_count E) \<le> n))
      \<and> (\<forall>k. fetch_count (poll_trace w force ms k) = Suc k
              \<and> wait_times (poll_trace w force ms k) = replicate k ms)
      \<and> (\<forall>j d0. 1 \<le> j \<and> j \<le> n
              \<and> (\<forall>i. 1 \<le> i \<and> i < j \<longrightarrow>
                    (\<exists>d. server i = response True d \<and> rewards (totalClaimable d) \<noteq> []))
              \<and> server j = response True d0 \<and> rewards (totalClaimable d0) = [] \<longrightarrow>
            result = Some d0 \<and> queryData s' = Some d0
          \<and> effects s' = effects s @ poll_trace w force ms (nat (j - 1)))
      \<and> (\<forall>dn. 1 \<le> n
              \<and> (\<forall>i. 1 \<le> i \<and> i \<le> n \<longrightarrow>
                    (\<exists>d. server i = response True d \<and> rewards (totalClaimable d) \<noteq> []))
              \<and> server n = response True dn \<longrightarrow>
            result = Some dn \<and> queryData s' = Some dn
          \<and> effects s' = effects s @ poll_trace w force ms (nat (n - 1)))"
proof -
  define options where "options = \<lparr> forceRefresh = fr, pollForZero = Some True, maxRetries = mr, intervalMs = im \<rparr>"
  define force where "force = (case fr of None \<Rightarrow> False | Some b \<Rightarrow> b)"
  define n where "n = (case mr of None \<Rightarrow> (6::int) | Some r \<Rightarrow> r)"
  define ms where "ms = (case im of None \<Rightarrow> (2500::int) | Some i \<Rightarrow> i)"
  define s0 where "s0 = s\<lparr> refreshLock := True, isRefreshing := True, queryData := None \<rparr>"
  define run where "run = poll_loop server w force True ms n 1 None s0"
  have s0: "effects s0 = effects s" by (simp add: s0_def)
  {
    assume adm: "w \<noteq> []" "\<not> refreshLock s"
    have r: "refreshClaimableRewards server (Some w) options s =
        (case fst run of Inr result \<Rightarrow> result | Inl error \<Rightarrow> None,
         (snd run)\<lparr> refreshLock := False, isRefreshing := False \<rparr>)"
      using refresh_admitted[OF adm, of server options]
      by (simp add: Let_def options_def force_def n_def ms_def s0_def run_def)
    have A: "\<exists>E. effects (snd (refreshClaimableRewards server (Some w) options s)) = effects s @ E
            \<and> ((E = [] \<and> n < 1) \<or> (\<exists>k. int k < n \<and> E = poll_trace w force ms k))
            \<and> (0 \<le> n \<longrightarrow> int (fetch_count E) \<le> n)"
    proof -
      from poll_loop_shape[of server w force True ms n 1 None s0]
      obtain E where E: "effects (snd run) = effects s0 @ E"
        "(E = [] \<and> n < 1) \<or> (\<exists>k. 1 + int k \<le> n \<and> E = poll_trace w force ms k)"
        unfolding run_def by blast
      from E(2) have shape: "(E = [] \<and> n < 1) \<or> (\<exists>k. int k < n \<and> E = poll_trace w force ms k)"
      proof
        assume "E = [] \<and> n < 1"
        then show ?thesis by simp
      next
        assume "\<exists>k. 1 + int k \<le> n \<and> E = poll_trace w force ms k"
        then obtain k where "1 + int k \<le> n" "E = poll_trace w force ms k" by blast
        then have "int k < n \<and> E = poll_trace w force ms k" by simp
        then show ?thesis by blast
      qed
      from shape have count: "0 \<le> n \<longrightarrow> int (fetch_count E) \<le> n"
        by (auto simp: fetch_count_trace)
      from E(1) r s0 have "effects (snd (refreshClaimableRewards server (Some w) options s)) = effects s @ E"
        by simp
      with shape count show ?thesis by blast
    qed
    have B: "\<forall>j d0. 1 \<le> j \<and> j \<le> n
              \<and> (\<forall>i. 1 \<le> i \<and> i < j \<longrightarrow>
                    (\<exists>d. server i = response True d \<and> rewards (totalClaimable d) \<noteq> []))
              \<and> server j = response True d0 \<and> rewards (totalClaimable d0) = [] \<longrightarrow>
            fst (refreshClaimableRewards server (Some w) options s) = Some d0
          \<and> queryData (snd (refreshClaimableRewards server (Some w) options s)) = Some d0
          \<and> effects (snd (refreshClaimableRewards server (Some w) options s))
              = effects s @ poll_trace w force ms (nat (j - 1))"
    proof (intro allI impI)
      fix j d0
      assume h: "1 \<le> j \<and> j \<le> n
              \<and> (\<forall>i. 1 \<le> i \<and> i < j \<longrightarrow>
                    (\<exists>d. server i = response True d \<and> rewards (totalClaimable d) \<noteq> []))
              \<and> server j = response True d0 \<and> rewards (totalClaimable d0) = []"
      then have "run = (Inr (Some d0),
                    s0\<lparr> queryData := Some d0, effects := effects s0 @ poll_trace w force ms (nat (j - 1)) \<rparr>)"
        unfolding run_def by (intro poll_loop_first_zero) auto
      with r s0 show "fst (refreshClaimableRewards server (Some w) options s) = Some d0
          \<and> queryData (snd (refreshClaimableRewards server (Some w) options s)) = Some d0
          \<and> effects (snd (refreshClaimableRewards server (Some w) options s))
              = effects s @ poll_trace w force ms (nat (j - 1))"
        by simp
    qed
    have C: "\<forall>dn. 1 \<le> n
              \<and> (\<forall>i. 1 \<le> i \<and> i \<le> n \<longrightarrow>
                    (\<exists>d. server i = response True d \<and> rewards (totalClaimable d) \<noteq> []))
              \<and> server n = response True dn \<longrightarrow>
            fst (refreshClaimableRewards server (Some w) options s) = Some dn
          \<and> queryData (snd (refreshClaimableRewards server (Some w) options s)) = Some dn
          \<and> effects (snd (refreshClaimableRewards server (Some w) options s))
              = effects s @ poll_trace w force ms (nat (n - 1))"
    proof (intro allI impI)
      fix dn
      assume h: "1 \<le> n
              \<and> (\<forall>i. 1 \<le> i \<and> i \<le> n \<longrightarrow>
                    (\<exists>d. server i = response True d \<and> rewards (totalClaimable d) \<noteq> []))
              \<and> server n = response True dn"
      then have "run = (Inr (Some dn),
                    s0\<lparr> queryData := Some dn, effects := effects s0 @ poll_trace w force ms (nat (n - 1)) \<rparr>)"
        unfolding run_def by (intro poll_loop_exhausted) auto
      with r s0 show "fst (refreshClaimableRewards server (Some w) options s) = Some dn
          \<and> queryData (snd (refreshClaimableRewards server (Some w) options s)) = Some dn
          \<and> effects (snd (refreshClaimableRewards server (Some w) options s))
              = effects s @ poll_trace w force ms (nat (n - 1))"
        by simp
    qed
    note A B C
  }
  note main = this
  have T: "\<forall>k. fetch_count (poll_trace w force ms k) = Suc k
              \<and> wait_times (poll_trace w force ms k) = replicate k ms"
    by (simp add: fetch_count_trace wait_times_trace)
  show ?thesis
    unfolding Let_def
    using main T
    unfolding options_def force_def n_def ms_def
    by (intro impI conjI) (elim conjE, assumption)+
qed


theorem poll_until_zero_witness:
  "fst (refreshClaimableRewards zero_on_third (Some ''0xabc'') (poll_options 3) idle) = Some empty_response
   \<and> effects (snd (refreshClaimableRewards zero_on_third (Some ''0xabc'') (poll_options 3) idle))
       = [Fetch ''0xabc'' True, Wait 2500, Fetch ''0xabc'' True, Wait 2500, Fetch ''0xabc'' True]
   \<and> wait_times (effects (snd (refreshClaimableRewards zero_on_third (Some ''0xabc'') (poll_options 3) idle)))
       = [2500, 2500]
   \<and> fetch_count (effects (snd (refreshClaimableRewards zero_on_third (Some ''0xabc'') (poll_options 3) idle)))
       = 3
   \<and> fst (refreshClaimableRewards never_zero (Some ''0xabc'') poll_defaults idle) = Some one_reward
   \<and> fetch_count (effects (snd (refreshClaimableRewards never_zero (Some ''0xabc'') poll_defaults idle))) = 6
   \<and> wait_times (effects (snd (refreshClaimableRewards never_zero (Some ''0xabc'') poll_defaults idle)))
       = [2500, 2500, 2500, 2500, 2500]"
proof -
  have hyp: "''0xabc'' \<noteq> [] \<and> \<not> refreshLock idle" by (simp add: idle_def)
  have prem: "(1::int) \<le> 3 \<and> (3::int) \<le> 3
      \<and> (\<forall>i. 1 \<le> i \<and> i < 3 \<longrightarrow>
            (\<exists>d. zero_on_third i = response True d \<and> rewards (totalClaimable d) \<noteq> []))
      \<and> zero_on_third 3 = response True empty_response
      \<and> rewards (totalClaimable empty_response) = []"
    by (simp add: zero_on_third_def one_reward_def empty_response_def)
  from poll_until_zero[of "Some True" "Some 3" None zero_on_third "''0xabc''" idle] hyp
  have "\<forall>j d0. 1 \<le> j \<and> j \<le> 3
        \<and> (\<forall>i. 1 \<le> i \<and> i < j \<longrightarrow>
              (\<exists>d. zero_on_third i = response True d \<and> rewards (totalClaimable d) \<noteq> []))
        \<and> zero_on_third j = response True d0 \<and> rewards (totalClaimable d0) = [] \<longrightarrow>
      fst (refreshClaimableRewards zero_on_third (Some ''0xabc'') (poll_options 3) idle) = Some d0
    \<and> queryData (snd (refreshClaimableRewards zero_on_third (Some ''0xabc'') (poll_options 3) idle)) = Some d0
    \<and> effects (snd (refreshClaimableRewards zero_on_third (Some ''0xabc'') (poll_options 3) idle))
        = effects idle @ poll_trace ''0xabc'' True 2500 (nat (j - 1))"
    unfolding Let_def poll_options_def by simp
  with prem have third:
    "fst (refreshClaimableRewards zero_on_third (Some ''0xabc'') (poll_options 3) idle) = Some empty_response
    \<and> effects (snd (refreshClaimableRewards zero_on_third (Some ''0xabc'') (poll_options 3) idle))
        = effects idle @ poll_trace ''0xabc'' True 2500 (nat (3 - 1))"
    by blast
  have prem6: "(1::int) \<le> 6
      \<and> (\<forall>i. 1 \<le> i \<and> i \<le> 6 \<longrightarrow>
            (\<exists>d. never_zero i = response True d \<and> rewards (totalClaimable d) \<noteq> []))
      \<and> never_zero 6 = response True one_reward"
    by (simp add: never_zero_def one_reward_def)
  from poll_until_zero[of None None None never_zero "''0xabc''" idle] hyp
  have "\<forall>dn. 1 \<le> (6::int)
        \<and> (\<forall>i. 1 \<le> i \<and> i \<le> 6 \<longrightarrow>
              (\<exists>d. never_zero i = response True d \<and> rewards (totalClaimable d) \<noteq> []))
        \<and> never_zero 6 = response True dn \<longrightarrow>
      fst (refreshClaimableRewards never_zero (Some ''0xabc'') poll_defaults idle) = Some dn
    \<and> queryData (snd (refreshClaimableRewards never_zero (Some ''0xabc'') poll_defaults idle)) = Some dn
    \<and> effects (snd (refreshClaimableRewards never_zero (Some ''0xabc'') poll_defaults idle))
        = effects idle @ poll_trace ''0xabc'' False 2500 (nat (6 - 1))"
    unfolding Let_def poll_defaults_def by simp
  with prem6 have sixth:
    "fst (refreshClaimableRewards never_zero (Some ''0xabc'') poll_defaults idle) = Some one_reward
    \<and> effects (snd (refreshClaimableRewards never_zero (Some ''0xabc'') poll_defaults idle))
        = effects idle @ poll_trace ''0xabc'' False 2500 (nat (6 - 1))"
    by blast
  have n2: "nat (3 - 1) = Suc (Suc 0)" and n5: "nat (6 - 1) = Suc (Suc (Suc (Suc (Suc 0))))"
    by simp_all
  from third sixth show ?thesis
    unfolding n2 n5 by (simp add: idle_def poll_trace_def)
qed

section \<open>The claim-call builders\<close>

text \<open>
  C1. For every owner address and token address, the claim-call builder
  returns \<open>{ to, data, functionName, args }\<close> where \<open>to\<close> is the fee-locker contract
  address (a 42-character hex string), \<open>functionName\<close> is \<open>claim\<close>, \<open>args\<close> is the pair
  of the owner and the token address, and \<open>data\<close> is the empty string: the call is
  described, not encoded.
\<close>

theorem getClaimCalldata_call:
  "getClaimCalldata feeOwner tokenAddress =
     \<lparr> to = CLANKER_FEE_LOCKER_ADDRESS, data = '''', functionName = ''claim'',
       args = (feeOwner, tokenAddress) \<rparr>
   \<and> hex_prefixed (to (getClaimCalldata feeOwner tokenAddress))
   \<and> length (to (getClaimCalldata feeOwner tokenAddress)) = 42"
  by (simp add: getClaimCalldata_def hex_prefixed_def CLANKER_FEE_LOCKER_ADDRESS_def)

text \<open>
  The \<open>data\<close> of the builder is therefore no encoded payload: it is not even a hex string
  that \<open>sendTransaction\<close> accepts.
\<close>

theorem claim_data_counterexample:
  "data (getClaimCalldata ''0x1111111111111111111111111111111111111111'' WETH_ADDRESS) = ''''
   \<and> \<not> hex_prefixed
         (data (getClaimCalldata ''0x1111111111111111111111111111111111111111'' WETH_ADDRESS))"
  by (simp add: getClaimCalldata_def hex_prefixed_def)

end
